theory Spec2Isabelle
  imports Main "HOL-Library.Word"
begin

section \<open>Values, errors and the JavaScript engine\<close>

text \<open>
  The library serialises JavaScript values into a \<open>SharedArrayBuffer\<close>. The model fixes
  the following representation of what the TypeScript sources manipulate.

  \<^item> A number is the 64 bits of its IEEE-754 binary64 encoding (\<open>VNumber\<close>); the code only
    stores, loads and compares numbers, so no floating-point arithmetic is needed.
  \<^item> A string is the list of the bytes of its UTF-8 encoding (\<open>VString\<close>), which is what
    \<open>TextEncoder\<close> produces; strings are taken to be well formed (no lone surrogate).
  \<^item> A \<open>Date\<close> is its time value in milliseconds, \<open>None\<close> for an invalid date,
    together with the own enumerable properties it has been given.
  \<^item> A typed array is its element type and the bytes of its elements.
  \<^item> An array is the list of its elements, \<open>None\<close> for a hole, together with its other own
    properties (the decoder of \<open>schema-compiler.ts\<close> creates such properties).
  \<^item> A plain object is the list of its own enumerable properties in enumeration order.
    Property names are assumed not to be inherited member names (\<open>constructor\<close>,
    \<open>toString\<close>, ...), \<open>length\<close> or canonical array indices.
  \<^item> \<open>VInstance\<close> is any other object (a class instance, a \<open>Map\<close>, a boxed primitive,
    an object without prototype): the list of its own enumerable string-keyed properties in
    enumeration order. What it inherits is the engine's to answer.
  \<^item> \<open>VOther\<close> stands for the values that are not objects: functions and symbols.
\<close>

type_synonym byte = "8 word"
type_synonym bytes = "byte list"

datatype TypedArrayType =
  Int8Array | Uint8Array | Int16Array | Uint16Array | Int32Array | Uint32Array
  | Float32Array | Float64Array | BigInt64Array | BigUint64Array

datatype PrimitiveType = String | Number | Boolean | Null | BigInt | Date | Undefined

datatype JSValue =
  VUndefined
  | VNull
  | VNumber "64 word"
  | VString string
  | VBoolean bool
  | VBigInt int
  | VDate "int option" "(string \<times> JSValue) list"
  | VTypedArray TypedArrayType bytes
  | VArray "JSValue option list" "(string \<times> JSValue) list"
  | VObject "(string \<times> JSValue) list"
  | VInstance "(string \<times> JSValue) list"
  | VOther

datatype error =
  BufferTooSmall nat nat
  | ImmutableSizeMismatch
  | UndefinedNotAllowed
  | CannotMutateImmutable
  | CannotPatchImmutable
  | UnsupportedPatchOperation string
  | UnsupportedType string
  | MissingValue string
  | InvalidPath string
  | NoTemplate string
  | NoTypedArray string
  | InvalidPathSegment string
  | InvalidArrayIndex string
  | InvalidOffset nat
  | MissingDataType
  | InvalidTypedArrayType
  | UnsupportedPrimitive
  | StringLengthExceedsBuffer
  | ArrayLengthExceedsBuffer
  | TypedArrayLengthExceedsBuffer
  | RangeError
  | TypeError
  | SyntaxError
  | CallbackError

text \<open>
  Where the sources hand a value of an unexpected type to a built-in, the engine coerces it
  (\<open>ToNumber\<close>, \<open>ToBigInt\<close>, \<open>ToString\<close>, property lookup on a primitive). These
  conversions are not code of the repository; the model calls them through a parameter and
  every general theorem holds for every engine.
\<close>

record Engine =
  coerceNumber :: "JSValue \<Rightarrow> error + 64 word"
  coerceBigInt :: "JSValue \<Rightarrow> error + 64 word"
  coerceText :: "JSValue \<Rightarrow> error + string"
  coerceTime :: "JSValue \<Rightarrow> error + 64 word"
  coerceLength :: "JSValue \<Rightarrow> error + 32 word"
  coerceElements :: "TypedArrayType \<Rightarrow> JSValue \<Rightarrow> nat option \<times> bytes \<times> error option"
  exoticLength :: "JSValue \<Rightarrow> nat option"
  exoticKeys :: "JSValue \<Rightarrow> string list"
  exoticGet :: "JSValue \<Rightarrow> string \<Rightarrow> JSValue"
  isNumericString :: "string \<Rightarrow> bool"

subsection \<open>Numbers, truthiness and strict equality\<close>

definition isNaN64 :: "64 word \<Rightarrow> bool" where
  "isNaN64 w \<longleftrightarrow> take_bit 11 (drop_bit 52 w) = 2047 \<and> take_bit 52 w \<noteq> 0"

definition isZero64 :: "64 word \<Rightarrow> bool" where
  "isZero64 w \<longleftrightarrow> take_bit 63 w = 0"

definition NaN64 :: "64 word" where
  "NaN64 = 0x7FF8000000000000"

text \<open>\<open>ToBoolean\<close>, as used by \<open>v ? 1 : 0\<close>, \<open>x || y\<close> and \<open>!x\<close>.\<close>

fun truthy :: "JSValue \<Rightarrow> bool" where
  "truthy VUndefined = False"
| "truthy VNull = False"
| "truthy (VNumber w) = (\<not> isZero64 w \<and> \<not> isNaN64 w)"
| "truthy (VString s) = (s \<noteq> [])"
| "truthy (VBoolean b) = b"
| "truthy (VBigInt i) = (i \<noteq> 0)"
| "truthy _ = True"

text \<open>
  \<open>a === b\<close>. On objects it is reference identity; the model has no object identities and
  takes two object operands to be distinct, which is the situation of \<open>diff\<close>: its old value
  is freshly built by \<open>decode\<close> and shares no object with the caller's new value.
\<close>

fun strictEq :: "JSValue \<Rightarrow> JSValue \<Rightarrow> bool" where
  "strictEq VUndefined VUndefined = True"
| "strictEq VNull VNull = True"
| "strictEq (VNumber a) (VNumber b) =
     (\<not> isNaN64 a \<and> \<not> isNaN64 b \<and> (a = b \<or> (isZero64 a \<and> isZero64 b)))"
| "strictEq (VString a) (VString b) = (a = b)"
| "strictEq (VBoolean a) (VBoolean b) = (a = b)"
| "strictEq (VBigInt a) (VBigInt b) = (a = b)"
| "strictEq _ _ = False"

subsection \<open>Property access\<close>

fun lookup :: "('k \<times> 'v) list \<Rightarrow> 'k \<Rightarrow> 'v option" where
  "lookup [] k = None"
| "lookup ((k', v) # ps) k = (if k' = k then Some v else lookup ps k)"

text \<open>\<open>o[k] = v\<close> on own properties: an existing key keeps its place, a new one goes last.\<close>

fun assign :: "('k \<times> 'v) list \<Rightarrow> 'k \<Rightarrow> 'v \<Rightarrow> ('k \<times> 'v) list" where
  "assign [] k v = [(k, v)]"
| "assign ((k', v') # ps) k v = (if k' = k then (k, v) # ps else (k', v') # assign ps k v)"

function showNat :: "nat \<Rightarrow> string" where
  "showNat n =
     (if n < 10 then [char_of (48 + n)] else showNat (n div 10) @ [char_of (48 + n mod 10)])"
  by pat_completeness auto
termination
  by (relation "measure id") auto

declare showNat.simps [simp del]

text \<open>The array index a property key denotes, if it is the canonical decimal form of one.\<close>

definition arrayIndex :: "nat \<Rightarrow> string \<Rightarrow> nat option" where
  "arrayIndex n k = (case filter (\<lambda>i. showNat i = k) [0..<n] of [] \<Rightarrow> None | i # _ \<Rightarrow> Some i)"

definition element :: "JSValue option list \<Rightarrow> nat \<Rightarrow> JSValue" where
  "element es i = (if i < length es then (case es ! i of None \<Rightarrow> VUndefined | Some v \<Rightarrow> v)
                   else VUndefined)"

text \<open>\<open>v?.[k]\<close>: \<open>undefined\<close> on \<open>null\<close> and \<open>undefined\<close>, the property otherwise.\<close>

definition getProp :: "Engine \<Rightarrow> JSValue \<Rightarrow> string \<Rightarrow> JSValue" where
  "getProp en v k =
     (case v of
        VUndefined \<Rightarrow> VUndefined
      | VNull \<Rightarrow> VUndefined
      | VObject ps \<Rightarrow> (case lookup ps k of None \<Rightarrow> VUndefined | Some x \<Rightarrow> x)
      | VArray es ps \<Rightarrow>
          (case arrayIndex (length es) k of
             Some i \<Rightarrow> element es i
           | None \<Rightarrow> (case lookup ps k of None \<Rightarrow> exoticGet en v k | Some x \<Rightarrow> x))
      | VInstance ps \<Rightarrow> (case lookup ps k of None \<Rightarrow> exoticGet en v k | Some x \<Rightarrow> x)
      | VDate d ps \<Rightarrow> (case lookup ps k of None \<Rightarrow> exoticGet en v k | Some x \<Rightarrow> x)
      | _ \<Rightarrow> exoticGet en v k)"

text \<open>\<open>new Set(xs)\<close>, listed in iteration order: each value once, at its first insertion.\<close>

definition setAdd :: "'a list \<Rightarrow> 'a \<Rightarrow> 'a list" where
  "setAdd s x = (if x \<in> set s then s else s @ [x])"

definition newSet :: "'a list \<Rightarrow> 'a list" where
  "newSet xs = fold (\<lambda>x s. setAdd s x) xs []"

text \<open>
  \<open>Object.keys(v)\<close> for a value that is not \<open>null\<close> or \<open>undefined\<close>. An object has
  each key once: where a list of properties names a key twice, the first entry is the
  property, as for \<open>lookup\<close>.
\<close>

definition ownKeys :: "Engine \<Rightarrow> JSValue \<Rightarrow> string list" where
  "ownKeys en v =
     newSet (case v of
        VObject ps \<Rightarrow> map fst ps
      | VArray es ps \<Rightarrow>
          map showNat (filter (\<lambda>i. es ! i \<noteq> None) [0..<length es]) @ map fst ps
      | VInstance ps \<Rightarrow> map fst ps
      | VDate d ps \<Rightarrow> map fst ps
      | _ \<Rightarrow> exoticKeys en v)"

section \<open>The segment: bytes, \<open>DataView\<close> accesses and the version counter\<close>

fun le_bytes :: "nat \<Rightarrow> nat \<Rightarrow> bytes" where
  "le_bytes 0 x = []"
| "le_bytes (Suc n) x = of_nat (x mod 256) # le_bytes n (x div 256)"

fun le_nat :: "bytes \<Rightarrow> nat" where
  "le_nat [] = 0"
| "le_nat (b # bs) = unat b + 256 * le_nat bs"

definition write_bytes :: "bytes \<Rightarrow> nat \<Rightarrow> bytes \<Rightarrow> bytes" where
  "write_bytes dv off bs = take off dv @ bs @ drop (off + length bs) dv"

definition read_bytes :: "bytes \<Rightarrow> nat \<Rightarrow> nat \<Rightarrow> bytes" where
  "read_bytes dv off n = take n (drop off dv)"

text \<open>
  The \<open>DataView\<close> accessors throw \<open>RangeError\<close> when the access does not fit; all accesses
  of the sources are little-endian.
\<close>

definition setBytes :: "bytes \<Rightarrow> nat \<Rightarrow> bytes \<Rightarrow> error + bytes" where
  "setBytes dv off bs =
     (if off + length bs \<le> length dv then Inr (write_bytes dv off bs) else Inl RangeError)"

definition getBytes :: "bytes \<Rightarrow> nat \<Rightarrow> nat \<Rightarrow> error + bytes" where
  "getBytes dv off n = (if off + n \<le> length dv then Inr (read_bytes dv off n) else Inl RangeError)"

definition setUint8 :: "bytes \<Rightarrow> nat \<Rightarrow> byte \<Rightarrow> error + bytes" where
  "setUint8 dv off b = setBytes dv off [b]"

definition setUint32 :: "bytes \<Rightarrow> nat \<Rightarrow> 32 word \<Rightarrow> error + bytes" where
  "setUint32 dv off w = setBytes dv off (le_bytes 4 (unat w))"

definition set64 :: "bytes \<Rightarrow> nat \<Rightarrow> 64 word \<Rightarrow> error + bytes" where
  "set64 dv off w = setBytes dv off (le_bytes 8 (unat w))"

definition getUint8 :: "bytes \<Rightarrow> nat \<Rightarrow> error + byte" where
  "getUint8 dv off = (case getBytes dv off 1 of Inl e \<Rightarrow> Inl e | Inr bs \<Rightarrow> Inr (of_nat (le_nat bs)))"

definition getUint32 :: "bytes \<Rightarrow> nat \<Rightarrow> error + nat" where
  "getUint32 dv off = (case getBytes dv off 4 of Inl e \<Rightarrow> Inl e | Inr bs \<Rightarrow> Inr (le_nat bs))"

definition get64 :: "bytes \<Rightarrow> nat \<Rightarrow> error + 64 word" where
  "get64 dv off = (case getBytes dv off 8 of Inl e \<Rightarrow> Inl e | Inr bs \<Rightarrow> Inr (of_nat (le_nat bs)))"

text \<open>
  \<open>new Date(Number(n))\<close> for a 64-bit signed \<open>n\<close>: beyond \<open>8.64e15\<close> milliseconds the date
  is invalid; within that range the conversion to a number is exact.
\<close>

definition dateOfBits :: "64 word \<Rightarrow> JSValue" where
  "dateOfBits w = (if \<bar>sint w\<bar> \<le> 8640000000000000 then VDate (Some (sint w)) [] else VDate None [])"

text \<open>
  The version counter is the 32-bit integer at bytes 0 to 3.
  \<open>Atomics.add(new Int32Array(sab, 0, 1), 0, 1)\<close> adds one to it, wrapping at \<open>2^32\<close>; the
  model is sequential and takes the platform byte order to be little-endian.
\<close>

definition version :: "bytes \<Rightarrow> 32 word" where
  "version sab = of_nat (le_nat (take 4 sab))"

definition atomicsAdd1 :: "bytes \<Rightarrow> bytes" where
  "atomicsAdd1 sab = write_bytes sab 0 (le_bytes 4 (unat (version sab + 1)))"

section \<open>The descriptor model (\<open>types.ts\<close>)\<close>

datatype DescriptorType = Primitive | Object | Array | TypedArray

datatype DataType = Prim PrimitiveType | Typed TypedArrayType

text \<open>
  A descriptor. The optional \<open>children\<close> record is the list of its entries, empty when the
  field is absent (the sources read it as \<open>children || {}\<close> or \<open>children?.[key]\<close>).
\<close>

datatype Descriptor =
  Descriptor (dtype: DescriptorType) (byteOffset: nat) (byteSize: nat)
    (dataType: "DataType option") (children: "(string \<times> Descriptor) list")
    (dlength: "nat option")

definition setByteSize :: "Descriptor \<Rightarrow> nat \<Rightarrow> Descriptor" where
  "setByteSize d n = Descriptor (dtype d) (byteOffset d) n (dataType d) (children d) (dlength d)"

text \<open>
  The accessor closures of a template entry. A closure created in \<open>inferDescriptor\<close> reads
  its address from a variable of the enclosing scope when it runs: either the variable
  \<open>currentOffset\<close> of \<open>inferSchema\<close>, one cell shared by every closure and assigned until
  inference ends, or the constant \<open>offset\<close> of its own call.
\<close>

datatype Address = SharedCurrentOffset | OwnOffset nat

datatype Accessor =
  NumberAccessor Address
  | StringAccessor Address
  | BooleanAccessor Address
  | BigIntAccessor Address
  | DateAccessor Address
  | TypedArrayAccessor TypedArrayType Address
  | ArrayAccessor Address
  | ObjectAccessor

record TemplateEntry =
  offset :: nat
  path :: string
  tsize :: nat
  setter :: Accessor
  getter :: Accessor

text \<open>
  A patch. \<open>value\<close> is optional in the interface; an absent value reads as
  \<open>undefined\<close>. \<open>OtherOp\<close> is an operation name outside the three of the interface,
  which a patch received from another context can carry.
\<close>

datatype PatchOp = Add | Remove | Replace | OtherOp string

record Patch =
  op :: PatchOp
  ppath :: string
  pvalue :: JSValue

text \<open>
  The schema. \<open>cell\<close> is not a field of the TypeScript interface: it is the variable
  \<open>currentOffset\<close> that the closures of \<open>encodingTemplate\<close> share, with the value it
  has once \<open>inferSchema\<close> has returned.
\<close>

record Schema =
  descriptorTree :: Descriptor
  schemaByteSize :: nat
  flatIndex :: "(string \<times> nat \<times> string) list"
  encodingTemplate :: "TemplateEntry list"
  typedArrayViews :: "(string \<times> TypedArrayType \<times> nat \<times> nat) list"
  cell :: nat

section \<open>Schema inference (\<open>schema-inference.ts\<close>)\<close>

fun getTypedArrayByteSize :: "TypedArrayType \<Rightarrow> nat" where
  "getTypedArrayByteSize Int8Array = 1"
| "getTypedArrayByteSize Uint8Array = 1"
| "getTypedArrayByteSize Int16Array = 2"
| "getTypedArrayByteSize Uint16Array = 2"
| "getTypedArrayByteSize Int32Array = 4"
| "getTypedArrayByteSize Uint32Array = 4"
| "getTypedArrayByteSize Float32Array = 4"
| "getTypedArrayByteSize Float64Array = 8"
| "getTypedArrayByteSize BigInt64Array = 8"
| "getTypedArrayByteSize BigUint64Array = 8"

fun constructorName :: "TypedArrayType \<Rightarrow> string" where
  "constructorName Int8Array = ''Int8Array''"
| "constructorName Uint8Array = ''Uint8Array''"
| "constructorName Int16Array = ''Int16Array''"
| "constructorName Uint16Array = ''Uint16Array''"
| "constructorName Int32Array = ''Int32Array''"
| "constructorName Uint32Array = ''Uint32Array''"
| "constructorName Float32Array = ''Float32Array''"
| "constructorName Float64Array = ''Float64Array''"
| "constructorName BigInt64Array = ''BigInt64Array''"
| "constructorName BigUint64Array = ''BigUint64Array''"

text \<open>The number of elements of a typed array value.\<close>

definition typedLength :: "TypedArrayType \<Rightarrow> bytes \<Rightarrow> nat" where
  "typedLength t bs = length bs div getTypedArrayByteSize t"

text \<open>The mutable variables of one \<open>inferSchema\<close> call.\<close>

record InferState =
  currentOffset :: nat
  flatIndexOf :: "(string \<times> nat \<times> string) list"
  templates :: "TemplateEntry list"
  viewsOf :: "(string \<times> TypedArrayType \<times> nat \<times> nat) list"

text \<open>
  The branches for numbers, strings, booleans, bigints and dates share one shape: record the
  path in the flat index, push a template whose closures refer to \<open>currentOffset\<close>, then
  advance \<open>currentOffset\<close> by the size.
\<close>

definition inferLeaf ::
  "PrimitiveType \<Rightarrow> string \<Rightarrow> nat \<Rightarrow> Accessor \<Rightarrow> string \<Rightarrow> InferState \<Rightarrow> Descriptor \<times> InferState" where
  "inferLeaf t tname n acc p st =
     (let st1 = st\<lparr>flatIndexOf := assign (flatIndexOf st) p (currentOffset st, tname)\<rparr>;
          st2 = st1\<lparr>templates := templates st1 @
                  [\<lparr>offset = currentOffset st1, path = p, tsize = n, setter = acc, getter = acc\<rparr>]\<rparr>;
          off = currentOffset st2;
          st3 = st2\<lparr>currentOffset := currentOffset st2 + n\<rparr>
      in (Descriptor Primitive off n (Some (Prim t)) [] None, st3))"

fun inferDescriptor ::
    "JSValue \<Rightarrow> string \<Rightarrow> InferState \<Rightarrow> error + (Descriptor \<times> InferState)"
  and inferItems ::
    "JSValue option list \<Rightarrow> string \<Rightarrow> nat \<Rightarrow> Descriptor \<Rightarrow> InferState
       \<Rightarrow> error + (Descriptor \<times> InferState)"
  and inferEntries ::
    "(string \<times> JSValue) list \<Rightarrow> string \<Rightarrow> nat \<Rightarrow> (string \<times> Descriptor) list \<Rightarrow> nat
       \<Rightarrow> InferState \<Rightarrow> error + (((string \<times> Descriptor) list \<times> nat) \<times> InferState)"
where
  "inferDescriptor VNull p st =
     Inr (Descriptor Primitive (currentOffset st) 0 (Some (Prim Null)) [] None, st)"
| "inferDescriptor VUndefined p st =
     Inr (Descriptor Primitive (currentOffset st) 0 (Some (Prim Undefined)) [] None, st)"
| "inferDescriptor (VNumber w) p st =
     Inr (inferLeaf Number ''Number'' 8 (NumberAccessor SharedCurrentOffset) p st)"
| "inferDescriptor (VString s) p st =
     Inr (inferLeaf String ''String'' (4 + length s) (StringAccessor SharedCurrentOffset) p st)"
| "inferDescriptor (VBoolean b) p st =
     Inr (inferLeaf Boolean ''Boolean'' 1 (BooleanAccessor SharedCurrentOffset) p st)"
| "inferDescriptor (VBigInt i) p st =
     Inr (inferLeaf BigInt ''BigInt'' 8 (BigIntAccessor SharedCurrentOffset) p st)"
| "inferDescriptor (VDate d ps) p st =
     Inr (inferLeaf Date ''Date'' 8 (DateAccessor SharedCurrentOffset) p st)"
| "inferDescriptor (VTypedArray t bs) p st =
     (let n = typedLength t bs;
          sz = 4 + n * getTypedArrayByteSize t;
          st1 = st\<lparr>flatIndexOf := assign (flatIndexOf st) p (currentOffset st, constructorName t)\<rparr>;
          st2 = st1\<lparr>templates := templates st1 @
                  [\<lparr>offset = currentOffset st1, path = p, tsize = sz,
                    setter = TypedArrayAccessor t SharedCurrentOffset,
                    getter = TypedArrayAccessor t SharedCurrentOffset\<rparr>]\<rparr>;
          st3 = st2\<lparr>viewsOf := assign (viewsOf st2) p (t, currentOffset st2, n)\<rparr>;
          off = currentOffset st3;
          st4 = st3\<lparr>currentOffset := currentOffset st3 + sz\<rparr>
      in Inr (Descriptor TypedArray off sz (Some (Typed t)) [] (Some n), st4))"
| "inferDescriptor (VArray es ps) p st =
     (let off = currentOffset st;
          st1 = st\<lparr>currentOffset := currentOffset st + 4\<rparr>
      in case (case es of
                 [] \<Rightarrow> Inr (Descriptor Primitive 0 0 (Some (Prim Null)) [] None, st1)
               | None # rest \<Rightarrow>
                   (case inferDescriptor VUndefined (p @ ''[]'') st1 of
                      Inl e \<Rightarrow> Inl e
                    | Inr (child, st2) \<Rightarrow> inferItems rest p 1 child st2)
               | Some v # rest \<Rightarrow>
                   (case inferDescriptor v (p @ ''[]'') st1 of
                      Inl e \<Rightarrow> Inl e
                    | Inr (child, st2) \<Rightarrow> inferItems rest p 1 child st2)) of
           Inl e \<Rightarrow> Inl e
         | Inr (child, st3) \<Rightarrow>
             (let n = length es;
                  sz = 4 + n * byteSize child;
                  st4 = st3\<lparr>flatIndexOf := assign (flatIndexOf st3) p (off, ''Array'')\<rparr>;
                  st5 = st4\<lparr>templates := templates st4 @
                          [\<lparr>offset = off, path = p, tsize = sz,
                            setter = ArrayAccessor (OwnOffset off),
                            getter = ArrayAccessor (OwnOffset off)\<rparr>]\<rparr>
              in Inr (Descriptor Array off sz None [(''[]'', child)] (Some n), st5)))"
| "inferDescriptor (VObject ps) p st =
     (let off = currentOffset st
      in case inferEntries ps p off [] 0 st of
           Inl e \<Rightarrow> Inl e
         | Inr ((chs, sz), st1) \<Rightarrow>
             (let st2 = st1\<lparr>flatIndexOf := assign (flatIndexOf st1) p (off, ''Object'')\<rparr>;
                  st3 = st2\<lparr>templates := templates st2 @
                          [\<lparr>offset = off, path = p, tsize = sz,
                            setter = ObjectAccessor, getter = ObjectAccessor\<rparr>]\<rparr>
              in Inr (Descriptor Object off sz None chs None, st3)))"
| "inferDescriptor (VInstance ps) p st = Inl (UnsupportedType p)"
| "inferDescriptor VOther p st = Inl (UnsupportedType p)"
| "inferItems [] p i child st = Inr (child, st)"
| "inferItems (None # rest) p i child st =
     (case inferDescriptor VUndefined (p @ ''['' @ showNat i @ '']'') st of
        Inl e \<Rightarrow> Inl e
      | Inr (itemDesc, st1) \<Rightarrow>
          inferItems rest p (i + 1) (setByteSize child (max (byteSize child) (byteSize itemDesc))) st1)"
| "inferItems (Some v # rest) p i child st =
     (case inferDescriptor v (p @ ''['' @ showNat i @ '']'') st of
        Inl e \<Rightarrow> Inl e
      | Inr (itemDesc, st1) \<Rightarrow>
          inferItems rest p (i + 1) (setByteSize child (max (byteSize child) (byteSize itemDesc))) st1)"
| "inferEntries [] p off chs sz st = Inr ((chs, sz), st)"
| "inferEntries ((key, val) # rest) p off chs sz st =
     (let childPath = (if p \<noteq> [] then p @ ''.'' @ key else key)
      in case inferDescriptor val childPath st of
           Inl e \<Rightarrow> Inl e
         | Inr (child, st1) \<Rightarrow>
             inferEntries rest p off (assign chs key child)
               (max sz (byteOffset child + byteSize child - off)) st1)"

definition inferSchema :: "JSValue \<Rightarrow> error + Schema" where
  "inferSchema data =
     (case inferDescriptor data [] \<lparr>currentOffset = 8, flatIndexOf = [], templates = [], viewsOf = []\<rparr> of
        Inl e \<Rightarrow> Inl e
      | Inr (tree, st) \<Rightarrow>
          Inr \<lparr>descriptorTree = tree, schemaByteSize = max (currentOffset st) 8,
               flatIndex = flatIndexOf st, encodingTemplate = templates st,
               typedArrayViews = viewsOf st, cell = currentOffset st\<rparr>)"

section \<open>Running the accessor closures\<close>

text \<open>The result of a call that may throw and may have written to the segment.\<close>

type_synonym 'a outcome = "(error + 'a) \<times> bytes"

text \<open>
  The address a closure uses when it runs: the current value of the shared variable, or its
  own constant.
\<close>

fun resolve :: "nat \<Rightarrow> Address \<Rightarrow> nat" where
  "resolve c SharedCurrentOffset = c"
| "resolve c (OwnOffset n) = n"

definition byteOfChar :: "char \<Rightarrow> byte" where
  "byteOfChar c = of_nat (of_char c)"

definition charOfByte :: "byte \<Rightarrow> char" where
  "charOfByte b = char_of (unat b)"

text \<open>
  \<open>new TextDecoder().decode(bytes)\<close>: the UTF-8 decoder of the Encoding standard, with
  errors replaced and a leading byte order mark dropped. A lead byte asks for one to three
  continuation bytes and bounds the first of them, which excludes overlong forms,
  surrogates and code points above \<open>U+10FFFF\<close>. A byte that cannot continue the sequence
  ends it with an error and is read again as the start of the next one; the end of the
  input inside a sequence is an error. A string being the bytes of its UTF-8 encoding, a
  well-formed sequence decodes to itself and an error to the three bytes of \<open>U+FFFD\<close>.
\<close>

definition replacementChar :: bytes where
  "replacementChar = [0xEF, 0xBF, 0xBD]"

text \<open>The continuation bytes a lead byte needs, and the bounds on the first of them.\<close>

definition leadByte :: "byte \<Rightarrow> (nat \<times> nat \<times> nat) option" where
  "leadByte b =
     (let n = unat b
      in if 0xC2 \<le> n \<and> n \<le> 0xDF then Some (1, 0x80, 0xBF)
         else if 0xE0 \<le> n \<and> n \<le> 0xEF
         then Some (2, if n = 0xE0 then 0xA0 else 0x80, if n = 0xED then 0x9F else 0xBF)
         else if 0xF0 \<le> n \<and> n \<le> 0xF4
         then Some (3, if n = 0xF0 then 0x90 else 0x80, if n = 0xF4 then 0x8F else 0xBF)
         else None)"

function utf8Decode :: "nat \<Rightarrow> bytes \<Rightarrow> nat \<Rightarrow> nat \<Rightarrow> bytes \<Rightarrow> bytes" where
  "utf8Decode needed seen lower upper [] = (if needed \<noteq> 0 then replacementChar else [])"
| "utf8Decode needed seen lower upper (b # bs) =
     (if needed = 0 then
        (if unat b \<le> 0x7F then b # utf8Decode 0 [] 0x80 0xBF bs
         else case leadByte b of
                Some (n, lo, hi) \<Rightarrow> utf8Decode n [b] lo hi bs
              | None \<Rightarrow> replacementChar @ utf8Decode 0 [] 0x80 0xBF bs)
      else if unat b < lower \<or> upper < unat b
      then replacementChar @ utf8Decode 0 [] 0x80 0xBF (b # bs)
      else if needed = 1 then seen @ [b] @ utf8Decode 0 [] 0x80 0xBF bs
      else utf8Decode (needed - 1) (seen @ [b]) 0x80 0xBF bs)"
  by pat_completeness auto
termination
  by (relation "measure (\<lambda>(needed, seen, lower, upper, bs).
                  2 * length bs + (if needed = 0 then 0 else 1))") auto

definition textDecode :: "bytes \<Rightarrow> string" where
  "textDecode bs =
     map charOfByte
       (utf8Decode 0 [] 0x80 0xBF (if take 3 bs = [0xEF, 0xBB, 0xBF] then drop 3 bs else bs))"

text \<open>The conversions the built-ins apply to their argument; the engine decides the rest.\<close>

definition toNumber :: "Engine \<Rightarrow> JSValue \<Rightarrow> error + 64 word" where
  "toNumber en v = (case v of VNumber w \<Rightarrow> Inr w | _ \<Rightarrow> coerceNumber en v)"

definition toBigInt64 :: "Engine \<Rightarrow> JSValue \<Rightarrow> error + 64 word" where
  "toBigInt64 en v = (case v of VBigInt i \<Rightarrow> Inr (word_of_int i) | _ \<Rightarrow> coerceBigInt en v)"

definition toText :: "Engine \<Rightarrow> JSValue \<Rightarrow> error + string" where
  "toText en v = (case v of VString s \<Rightarrow> Inr s | _ \<Rightarrow> coerceText en v)"

text \<open>\<open>BigInt(v.getTime())\<close>.\<close>

definition toTime :: "Engine \<Rightarrow> JSValue \<Rightarrow> error + 64 word" where
  "toTime en v =
     (case v of
        VDate (Some t) ps \<Rightarrow> Inr (word_of_int t)
      | VDate None ps \<Rightarrow> Inl RangeError
      | VUndefined \<Rightarrow> Inl TypeError
      | VNull \<Rightarrow> Inl TypeError
      | _ \<Rightarrow> coerceTime en v)"

text \<open>\<open>v.length\<close> as \<open>setUint32\<close> stores it.\<close>

definition toLength :: "Engine \<Rightarrow> JSValue \<Rightarrow> error + 32 word" where
  "toLength en v =
     (case v of
        VUndefined \<Rightarrow> Inl TypeError
      | VNull \<Rightarrow> Inl TypeError
      | VArray es ps \<Rightarrow> Inr (of_nat (length es))
      | VTypedArray t bs \<Rightarrow> Inr (of_nat (typedLength t bs))
      | _ \<Rightarrow> coerceLength en v)"

text \<open>
  \<open>new T(buffer, byteOffset, length)\<close>: the byte length of the view, or the \<open>RangeError\<close>
  of a misaligned or overlong view. A missing length means up to the end of the buffer.
\<close>

definition typedArrayView :: "bytes \<Rightarrow> TypedArrayType \<Rightarrow> nat \<Rightarrow> nat option \<Rightarrow> error + nat" where
  "typedArrayView dv t off len =
     (let sz = getTypedArrayByteSize t
      in if off mod sz \<noteq> 0 then Inl RangeError
         else case len of
                Some n \<Rightarrow> if off + n * sz \<le> length dv then Inr (n * sz) else Inl RangeError
              | None \<Rightarrow> if length dv mod sz \<noteq> 0 \<or> length dv < off then Inl RangeError
                        else Inr (length dv - off))"

text \<open>
  What \<open>view.set(v)\<close> copies: for a typed array of the view's type its bytes; for any other
  source the engine's element conversion, which may stop with an error.
\<close>

definition toElements :: "Engine \<Rightarrow> TypedArrayType \<Rightarrow> JSValue \<Rightarrow> nat option \<times> bytes \<times> error option" where
  "toElements en t v =
     (case v of
        VTypedArray t' bs \<Rightarrow>
          if t' = t then (Some (typedLength t bs), take (typedLength t bs * getTypedArrayByteSize t) bs, None)
          else coerceElements en t v
      | _ \<Rightarrow> coerceElements en t v)"

definition lift :: "bytes \<Rightarrow> error + bytes \<Rightarrow> unit outcome" where
  "lift dv r = (case r of Inl e \<Rightarrow> (Inl e, dv) | Inr dv' \<Rightarrow> (Inr (), dv'))"

text \<open>\<open>template.setter(dv, v)\<close>, with \<open>c\<close> the value of the shared variable.\<close>

fun runSetter :: "Engine \<Rightarrow> nat \<Rightarrow> Accessor \<Rightarrow> bytes \<Rightarrow> JSValue \<Rightarrow> unit outcome" where
  "runSetter en c (NumberAccessor a) dv v =
     (case toNumber en v of
        Inl e \<Rightarrow> (Inl e, dv)
      | Inr w \<Rightarrow> lift dv (set64 dv (resolve c a) w))"
| "runSetter en c (StringAccessor a) dv v =
     (case toText en v of
        Inl e \<Rightarrow> (Inl e, dv)
      | Inr b \<Rightarrow>
          (case setUint32 dv (resolve c a) (of_nat (length b)) of
             Inl e \<Rightarrow> (Inl e, dv)
           | Inr dv1 \<Rightarrow> lift dv1 (setBytes dv1 (resolve c a + 4) (map byteOfChar b))))"
| "runSetter en c (BooleanAccessor a) dv v =
     lift dv (setUint8 dv (resolve c a) (if truthy v then 1 else 0))"
| "runSetter en c (BigIntAccessor a) dv v =
     (case toBigInt64 en v of
        Inl e \<Rightarrow> (Inl e, dv)
      | Inr w \<Rightarrow> lift dv (set64 dv (resolve c a) w))"
| "runSetter en c (DateAccessor a) dv v =
     (case toTime en v of
        Inl e \<Rightarrow> (Inl e, dv)
      | Inr w \<Rightarrow> lift dv (set64 dv (resolve c a) w))"
| "runSetter en c (TypedArrayAccessor t a) dv v =
     (case toLength en v of
        Inl e \<Rightarrow> (Inl e, dv)
      | Inr w \<Rightarrow>
          (case setUint32 dv (resolve c a) w of
             Inl e \<Rightarrow> (Inl e, dv)
           | Inr dv1 \<Rightarrow>
               (case toElements en t v of
                  (len, bs, err) \<Rightarrow>
                    (case typedArrayView dv1 t (resolve c a + 4) len of
                       Inl e \<Rightarrow> (Inl e, dv1)
                     | Inr cap \<Rightarrow>
                         if cap < length bs then (Inl RangeError, dv1)
                         else (case err of
                                 Some e \<Rightarrow> (Inl e, write_bytes dv1 (resolve c a + 4) bs)
                               | None \<Rightarrow> (Inr (), write_bytes dv1 (resolve c a + 4) bs))))))"
| "runSetter en c (ArrayAccessor a) dv v =
     (case toLength en v of
        Inl e \<Rightarrow> (Inl e, dv)
      | Inr w \<Rightarrow> lift dv (setUint32 dv (resolve c a) w))"
| "runSetter en c ObjectAccessor dv v = (Inr (), dv)"

text \<open>\<open>template.getter(dv)\<close>.\<close>

fun runGetter :: "nat \<Rightarrow> Accessor \<Rightarrow> bytes \<Rightarrow> error + JSValue" where
  "runGetter c (NumberAccessor a) dv =
     (case get64 dv (resolve c a) of Inl e \<Rightarrow> Inl e | Inr w \<Rightarrow> Inr (VNumber w))"
| "runGetter c (StringAccessor a) dv =
     (case getUint32 dv (resolve c a) of
        Inl e \<Rightarrow> Inl e
      | Inr len \<Rightarrow>
          (case getBytes dv (resolve c a + 4) len of
             Inl e \<Rightarrow> Inl e
           | Inr bs \<Rightarrow> Inr (VString (textDecode bs))))"
| "runGetter c (BooleanAccessor a) dv =
     (case getUint8 dv (resolve c a) of Inl e \<Rightarrow> Inl e | Inr b \<Rightarrow> Inr (VBoolean (b \<noteq> 0)))"
| "runGetter c (BigIntAccessor a) dv =
     (case get64 dv (resolve c a) of Inl e \<Rightarrow> Inl e | Inr w \<Rightarrow> Inr (VBigInt (sint w)))"
| "runGetter c (DateAccessor a) dv =
     (case get64 dv (resolve c a) of Inl e \<Rightarrow> Inl e | Inr w \<Rightarrow> Inr (dateOfBits w))"
| "runGetter c (TypedArrayAccessor t a) dv =
     (case getUint32 dv (resolve c a) of
        Inl e \<Rightarrow> Inl e
      | Inr len \<Rightarrow>
          (case typedArrayView dv t (resolve c a + 4) (Some len) of
             Inl e \<Rightarrow> Inl e
           | Inr n \<Rightarrow> Inr (VTypedArray t (read_bytes dv (resolve c a + 4) n))))"
| "runGetter c (ArrayAccessor a) dv =
     (case getUint32 dv (resolve c a) of
        Inl e \<Rightarrow> Inl e
      | Inr len \<Rightarrow> Inr (VArray (replicate len None) []))"
| "runGetter c ObjectAccessor dv = Inr (VObject [])"

section \<open>Helpers of \<open>utils.ts\<close> and \<open>schema-compiler.ts\<close>\<close>

text \<open>
  \<open>hasUndefined\<close>. A value whose \<open>typeof\<close> is not \<open>object\<close> has none; a typed array
  is not looked into; \<open>Array.prototype.some\<close> visits the elements that exist and no other
  property of the array; of every other object, plain or not, \<open>Object.values\<close> lists the
  own enumerable properties.
\<close>

fun hasUndefined :: "JSValue \<Rightarrow> bool" where
  "hasUndefined VUndefined = True"
| "hasUndefined VNull = False"
| "hasUndefined (VNumber w) = False"
| "hasUndefined (VString s) = False"
| "hasUndefined (VBoolean b) = False"
| "hasUndefined (VBigInt i) = False"
| "hasUndefined (VTypedArray t bs) = False"
| "hasUndefined (VArray es ps) =
     list_ex (\<lambda>e. case e of None \<Rightarrow> False | Some v \<Rightarrow> hasUndefined v) es"
| "hasUndefined (VObject ps) = list_ex (\<lambda>(k, v). hasUndefined v) ps"
| "hasUndefined (VDate d ps) = list_ex (\<lambda>(k, v). hasUndefined v) ps"
| "hasUndefined (VInstance ps) = list_ex (\<lambda>(k, v). hasUndefined v) ps"
| "hasUndefined VOther = False"

text \<open>\<open>s.split(sep)\<close> for a set of one-character separators.\<close>

fun splitOn :: "(char \<Rightarrow> bool) \<Rightarrow> string \<Rightarrow> string \<Rightarrow> string list" where
  "splitOn sep acc [] = [rev acc]"
| "splitOn sep acc (c # cs) = (if sep c then rev acc # splitOn sep [] cs else splitOn sep (c # acc) cs)"

text \<open>\<open>path.split(/[\.\[\]]/).filter(p => p)\<close>.\<close>

definition pathParts :: "string \<Rightarrow> string list" where
  "pathParts p =
     filter (\<lambda>s. s \<noteq> []) (splitOn (\<lambda>c. c = CHR ''.'' \<or> c = CHR ''['' \<or> c = CHR '']'') [] p)"

text \<open>\<open>path.split('.').pop()\<close>.\<close>

definition lastSegment :: "string \<Rightarrow> string" where
  "lastSegment p = last (splitOn (\<lambda>c. c = CHR ''.'') [] p)"

fun getValueByPathParts :: "Engine \<Rightarrow> JSValue \<Rightarrow> string list \<Rightarrow> JSValue" where
  "getValueByPathParts en current [] = current"
| "getValueByPathParts en current (part # parts) =
     (let next = getProp en current part
      in if next = VUndefined then VUndefined else getValueByPathParts en next parts)"

definition getValueByPath :: "Engine \<Rightarrow> JSValue \<Rightarrow> string \<Rightarrow> JSValue" where
  "getValueByPath en data p = getValueByPathParts en data (pathParts p)"

section \<open>The compiled functions (\<open>schema-compiler.ts\<close>)\<close>

text \<open>
  \<open>encode(data, dv, dirtyFields)\<close>: the loop over the template entries. \<open>dirtyFields\<close> is
  \<open>None\<close> when the argument is absent; a set, even empty, is truthy.
\<close>

fun encodeEntries ::
  "Engine \<Rightarrow> nat \<Rightarrow> JSValue \<Rightarrow> string list option \<Rightarrow> TemplateEntry list \<Rightarrow> bytes \<Rightarrow> unit outcome" where
  "encodeEntries en c data dirtyFields [] dv = (Inr (), dv)"
| "encodeEntries en c data dirtyFields (entry # rest) dv =
     (if (case dirtyFields of None \<Rightarrow> False | Some d \<Rightarrow> path entry \<notin> set d)
      then encodeEntries en c data dirtyFields rest dv
      else (let val = getValueByPath en data (path entry)
            in if val = VUndefined then (Inl (MissingValue (path entry)), dv)
               else (case runSetter en c (setter entry) dv val of
                       (Inl e, dv1) \<Rightarrow> (Inl e, dv1)
                     | (Inr u, dv1) \<Rightarrow> encodeEntries en c data dirtyFields rest dv1)))"

definition compiledEncode ::
  "Engine \<Rightarrow> Schema \<Rightarrow> JSValue \<Rightarrow> bytes \<Rightarrow> string list option \<Rightarrow> unit outcome" where
  "compiledEncode en schema data dv dirtyFields =
     encodeEntries en (cell schema) data dirtyFields (encodingTemplate schema) dv"

text \<open>
  \<open>set(path, value, dv)\<close>. The template is searched by comparing each template's \<open>type\<close>
  field, which holds a path, with the \<open>type\<close> field of the flat index entry, which holds a
  type name.
\<close>

definition compiledSet :: "Engine \<Rightarrow> Schema \<Rightarrow> string \<Rightarrow> JSValue \<Rightarrow> bytes \<Rightarrow> unit outcome" where
  "compiledSet en schema p v dv =
     (case lookup (flatIndex schema) p of
        None \<Rightarrow> (Inl (InvalidPath p), dv)
      | Some (off, tname) \<Rightarrow>
          (case find (\<lambda>t. path t = tname) (encodingTemplate schema) of
             None \<Rightarrow> (Inl (NoTemplate p), dv)
           | Some template \<Rightarrow> runSetter en (cell schema) (setter template) dv v))"

subsection \<open>Decoding\<close>

text \<open>
  \<open>result[key] = v\<close> on the object or array under construction. Keys are property names
  (see the assumptions on names above), so on an array they denote an element only
  when they are an index below its length.
\<close>

definition putProp :: "JSValue \<Rightarrow> string \<Rightarrow> JSValue \<Rightarrow> JSValue" where
  "putProp result k v =
     (case result of
        VObject ps \<Rightarrow> VObject (assign ps k v)
      | VArray es ps \<Rightarrow>
          (case arrayIndex (length es) k of
             Some i \<Rightarrow> VArray (es[i := Some v]) ps
           | None \<Rightarrow> VArray es (assign ps k v))
      | _ \<Rightarrow> result)"

definition readPrimitive :: "bytes \<Rightarrow> nat \<Rightarrow> DataType \<Rightarrow> error + JSValue" where
  "readPrimitive dv off t =
     (if length dv \<le> off then Inl (InvalidOffset off)
      else case t of
        Prim Number \<Rightarrow> (case get64 dv off of Inl e \<Rightarrow> Inl e | Inr w \<Rightarrow> Inr (VNumber w))
      | Prim String \<Rightarrow>
          (case getUint32 dv off of
             Inl e \<Rightarrow> Inl e
           | Inr len \<Rightarrow>
               if length dv < off + 4 + len then Inl StringLengthExceedsBuffer
               else Inr (VString (textDecode (read_bytes dv (off + 4) len))))
      | Prim Boolean \<Rightarrow> (case getUint8 dv off of Inl e \<Rightarrow> Inl e | Inr b \<Rightarrow> Inr (VBoolean (b \<noteq> 0)))
      | Prim BigInt \<Rightarrow> (case get64 dv off of Inl e \<Rightarrow> Inl e | Inr w \<Rightarrow> Inr (VBigInt (sint w)))
      | Prim Date \<Rightarrow> (case get64 dv off of Inl e \<Rightarrow> Inl e | Inr w \<Rightarrow> Inr (dateOfBits w))
      | Prim Null \<Rightarrow> Inr VNull
      | Prim Undefined \<Rightarrow> Inr VUndefined
      | Typed ta \<Rightarrow> Inl UnsupportedPrimitive)"

text \<open>
  The \<open>TypedArray\<close> branch shared by both decoders: the type check, the length prefix, the
  bounds check and the view on the buffer.
\<close>

definition readTypedArray :: "Descriptor \<Rightarrow> bytes \<Rightarrow> nat \<Rightarrow> error + JSValue" where
  "readTypedArray d dv off =
     (case dataType d of
        Some (Typed t) \<Rightarrow>
          (case getUint32 dv off of
             Inl e \<Rightarrow> Inl e
           | Inr len \<Rightarrow>
               if length dv < off + 4 + len * getTypedArrayByteSize t
               then Inl TypedArrayLengthExceedsBuffer
               else (case typedArrayView dv t (off + 4) (Some len) of
                       Inl e \<Rightarrow> Inl e
                     | Inr n \<Rightarrow> Inr (VTypedArray t (read_bytes dv (off + 4) n))))
      | _ \<Rightarrow> Inl InvalidTypedArrayType)"

text \<open>A child descriptor is smaller than its parent; the decoders recurse on it.\<close>

lemma lookup_size_lt:
  "lookup chs k = Some (c :: Descriptor) \<Longrightarrow> size c < Suc (size_list (size_prod (\<lambda>x. 0) size) chs)"
  by (induction chs) (auto split: if_splits)

lemma member_size_lt:
  "(k, c :: Descriptor) \<in> set chs \<Longrightarrow> size c < Suc (size_list (size_prod (\<lambda>x. 0) size) chs)"
  by (induction chs) auto

text \<open>
  \<open>traverseDescriptor(descriptor, dv, offset, result, path)\<close> fills \<open>result\<close> in place;
  the model returns the filled \<open>result\<close>.
\<close>

function traverseDescriptor ::
  "Descriptor \<Rightarrow> bytes \<Rightarrow> nat \<Rightarrow> JSValue \<Rightarrow> string \<Rightarrow> error + JSValue" where
  "traverseDescriptor d dv off result p =
     (if length dv \<le> off then Inl (InvalidOffset off)
      else case dtype d of
        Primitive \<Rightarrow>
          (case dataType d of
             None \<Rightarrow> Inl MissingDataType
           | Some t \<Rightarrow>
               (case readPrimitive dv off t of
                  Inl e \<Rightarrow> Inl e
                | Inr v \<Rightarrow> Inr (putProp result (lastSegment p) v)))
      | Object \<Rightarrow>
          fold (\<lambda>(key, child) acc.
                  case acc of
                    Inl e \<Rightarrow> Inl e
                  | Inr res \<Rightarrow>
                      (case traverseDescriptor child dv (off + byteOffset child) (VObject [])
                              (if p \<noteq> [] then p @ ''.'' @ key else key) of
                         Inl e \<Rightarrow> Inl e
                       | Inr sub \<Rightarrow> Inr (putProp res key sub)))
            (children d) (Inr result)
      | Array \<Rightarrow>
          (case getUint32 dv off of
             Inl e \<Rightarrow> Inl e
           | Inr len \<Rightarrow>
               (case lookup (children d) ''[]'' of
                  None \<Rightarrow> Inl TypeError
                | Some child \<Rightarrow>
                    if length dv < off + 4 + len * byteSize child then Inl ArrayLengthExceedsBuffer
                    else (case fold (\<lambda>i acc.
                                       case acc of
                                         Inl e \<Rightarrow> Inl e
                                       | Inr arr \<Rightarrow>
                                           traverseDescriptor child dv (off + 4 + i * byteSize child) arr
                                             (p @ ''['' @ showNat i @ '']''))
                                 [0..<len] (Inr (VArray (replicate len None) [])) of
                            Inl e \<Rightarrow> Inl e
                          | Inr arr \<Rightarrow> Inr (putProp result (lastSegment p) arr))))
      | TypedArray \<Rightarrow>
          (case readTypedArray d dv off of
             Inl e \<Rightarrow> Inl e
           | Inr v \<Rightarrow> Inr (putProp result (lastSegment p) v)))"
  by pat_completeness auto

termination
  apply (relation "measure (\<lambda>(d, dv, off, result, p). size d)")
    apply simp
   apply (case_tac d; simp)
   apply (auto dest: member_size_lt lookup_size_lt)[1]
  apply (case_tac d; simp)
  apply (auto dest: member_size_lt lookup_size_lt)[1]
  done

declare traverseDescriptor.simps [simp del]

text \<open>\<open>decode(dv)\<close>: the traversal starts at offset 0 with an empty object and an empty path.\<close>

definition compiledDecode :: "Schema \<Rightarrow> bytes \<Rightarrow> error + JSValue" where
  "compiledDecode schema dv = traverseDescriptor (descriptorTree schema) dv 0 (VObject []) []"

section \<open>The view (\<open>view-core.ts\<close>, \<open>view-encode-decode.ts\<close>, \<open>view-mutations.ts\<close>,
  \<open>view-accessors.ts\<close>)\<close>

text \<open>
  \<open>readValue(dv, descriptor, offset)\<close>. Its \<open>Primitive\<close> branch is the switch of
  \<open>readPrimitive\<close> and its \<open>TypedArray\<close> branch the one of \<open>traverseDescriptor\<close>.
\<close>

function readValue :: "bytes \<Rightarrow> Descriptor \<Rightarrow> nat \<Rightarrow> error + JSValue" where
  "readValue dv d off =
     (if length dv \<le> off then Inl (InvalidOffset off)
      else case dtype d of
        Primitive \<Rightarrow>
          (case dataType d of
             None \<Rightarrow> Inl MissingDataType
           | Some t \<Rightarrow> readPrimitive dv off t)
      | Object \<Rightarrow>
          (case fold (\<lambda>(key, child) acc.
                        case acc of
                          Inl e \<Rightarrow> Inl e
                        | Inr res \<Rightarrow>
                            (case readValue dv child (off + byteOffset child) of
                               Inl e \<Rightarrow> Inl e
                             | Inr v \<Rightarrow> Inr (assign res key v)))
                  (children d) (Inr []) of
             Inl e \<Rightarrow> Inl e
           | Inr res \<Rightarrow> Inr (VObject res))
      | Array \<Rightarrow>
          (case getUint32 dv off of
             Inl e \<Rightarrow> Inl e
           | Inr len \<Rightarrow>
               (case lookup (children d) ''[]'' of
                  None \<Rightarrow> Inl TypeError
                | Some child \<Rightarrow>
                    if length dv < off + 4 + len * byteSize child then Inl ArrayLengthExceedsBuffer
                    else (case fold (\<lambda>i acc.
                                       case acc of
                                         Inl e \<Rightarrow> Inl e
                                       | Inr es \<Rightarrow>
                                           (case readValue dv child (off + 4 + i * byteSize child) of
                                              Inl e \<Rightarrow> Inl e
                                            | Inr v \<Rightarrow> Inr (es[i := Some v])))
                                 [0..<len] (Inr (replicate len None)) of
                            Inl e \<Rightarrow> Inl e
                          | Inr es \<Rightarrow> Inr (VArray es []))))
      | TypedArray \<Rightarrow> readTypedArray d dv off)"
  by pat_completeness auto
termination
  apply (relation "measure (\<lambda>(dv, d, off). size d)")
    apply simp
   apply (case_tac d; simp)
   apply (auto dest: member_size_lt lookup_size_lt)[1]
  apply (case_tac d; simp)
  apply (auto dest: member_size_lt lookup_size_lt)[1]
  done

declare readValue.simps [simp del]

text \<open>
  \<open>getDescriptor(path)\<close>. \<open>!isNaN(Number(part))\<close> is the engine's test for a numeric
  string.
\<close>

fun getDescriptorParts :: "Engine \<Rightarrow> Descriptor \<Rightarrow> string list \<Rightarrow> error + Descriptor" where
  "getDescriptorParts en current [] = Inr current"
| "getDescriptorParts en current (part # parts) =
     (if dtype current = Object then
        (case lookup (children current) part of
           None \<Rightarrow> Inl (InvalidPathSegment part)
         | Some next \<Rightarrow> getDescriptorParts en next parts)
      else if dtype current = Array \<and> isNumericString en part then
        (case lookup (children current) ''[]'' of
           None \<Rightarrow> Inl (InvalidArrayIndex part)
         | Some next \<Rightarrow> getDescriptorParts en next parts)
      else Inl (InvalidPathSegment part))"

text \<open>
  The view: its options, its schema and the two hooks. A hook is a caller's function; the
  model records whether it throws.
\<close>

record View =
  mutable :: bool
  schema :: Schema
  onDiff :: "(Patch list \<Rightarrow> error option) option"
  beforePatch :: "(Patch \<Rightarrow> error option) option"

text \<open>\<open>new View(data, options)\<close>; \<open>options.mutable\<close> defaults to \<open>false\<close>.\<close>

definition createView :: "JSValue \<Rightarrow> bool option \<Rightarrow> error + View" where
  "createView data opt =
     (case inferSchema data of
        Inl e \<Rightarrow> Inl e
      | Inr s \<Rightarrow> Inr \<lparr>mutable = (case opt of None \<Rightarrow> False | Some m \<Rightarrow> m), schema = s,
               onDiff = None, beforePatch = None\<rparr>)"

definition getDescriptor :: "Engine \<Rightarrow> View \<Rightarrow> string \<Rightarrow> error + Descriptor" where
  "getDescriptor en view p = getDescriptorParts en (descriptorTree (schema view)) (pathParts p)"

text \<open>
  \<open>View.prototype.encode\<close>. The compiled \<open>encode\<close> receives \<open>new Set()\<close> as its set of
  dirty fields.
\<close>

definition encode :: "Engine \<Rightarrow> View \<Rightarrow> JSValue \<Rightarrow> bytes \<Rightarrow> unit outcome" where
  "encode en view data sab =
     (if length sab < schemaByteSize (schema view)
      then (Inl (BufferTooSmall (length sab) (schemaByteSize (schema view))), sab)
      else if \<not> mutable view \<and> schemaByteSize (schema view) \<noteq> length sab
      then (Inl ImmutableSizeMismatch, sab)
      else if hasUndefined data then (Inl UndefinedNotAllowed, sab)
      else (case compiledEncode en (schema view) data sab (Some []) of
              (Inl e, sab1) \<Rightarrow> (Inl e, sab1)
            | (Inr u, sab1) \<Rightarrow> (Inr (), atomicsAdd1 sab1)))"

definition decode :: "View \<Rightarrow> bytes \<Rightarrow> error + JSValue" where
  "decode view sab =
     (if length sab < schemaByteSize (schema view)
      then Inl (BufferTooSmall (length sab) (schemaByteSize (schema view)))
      else compiledDecode (schema view) sab)"

definition decodePartial :: "Engine \<Rightarrow> View \<Rightarrow> string \<Rightarrow> bytes \<Rightarrow> error + JSValue" where
  "decodePartial en view p sab =
     (if length sab < schemaByteSize (schema view)
      then Inl (BufferTooSmall (length sab) (schemaByteSize (schema view)))
      else case lookup (flatIndex (schema view)) p of
             None \<Rightarrow> Inl (InvalidPath p)
           | Some (off, tname) \<Rightarrow>
               (case getDescriptor en view p of
                  Inl e \<Rightarrow> Inl e
                | Inr d \<Rightarrow> readValue sab d off))"

text \<open>\<open>View.prototype.set\<close>, called \<open>setValue\<close> here.\<close>

definition setValue :: "Engine \<Rightarrow> View \<Rightarrow> string \<Rightarrow> JSValue \<Rightarrow> bytes \<Rightarrow> unit outcome" where
  "setValue en view p v sab =
     (if \<not> mutable view then (Inl CannotMutateImmutable, sab)
      else if length sab < schemaByteSize (schema view)
      then (Inl (BufferTooSmall (length sab) (schemaByteSize (schema view))), sab)
      else (case compiledSet en (schema view) p v sab of
              (Inl e, sab1) \<Rightarrow> (Inl e, sab1)
            | (Inr u, sab1) \<Rightarrow> (Inr (), atomicsAdd1 sab1)))"

text \<open>The loop of \<open>bulkSet\<close> over \<open>Object.entries(pathsAndValues)\<close>.\<close>

fun setEntries :: "Engine \<Rightarrow> Schema \<Rightarrow> (string \<times> JSValue) list \<Rightarrow> bytes \<Rightarrow> unit outcome" where
  "setEntries en s [] dv = (Inr (), dv)"
| "setEntries en s ((p, v) # rest) dv =
     (case compiledSet en s p v dv of
        (Inl e, dv1) \<Rightarrow> (Inl e, dv1)
      | (Inr u, dv1) \<Rightarrow> setEntries en s rest dv1)"

definition bulkSet :: "Engine \<Rightarrow> View \<Rightarrow> (string \<times> JSValue) list \<Rightarrow> bytes \<Rightarrow> unit outcome" where
  "bulkSet en view pathsAndValues sab =
     (if \<not> mutable view then (Inl CannotMutateImmutable, sab)
      else if length sab < schemaByteSize (schema view)
      then (Inl (BufferTooSmall (length sab) (schemaByteSize (schema view))), sab)
      else (case setEntries en (schema view) pathsAndValues sab of
              (Inl e, sab1) \<Rightarrow> (Inl e, sab1)
            | (Inr u, sab1) \<Rightarrow> (Inr (), atomicsAdd1 sab1)))"

text \<open>The own enumerable properties that \<open>{...v}\<close> copies.\<close>

definition spread :: "Engine \<Rightarrow> JSValue \<Rightarrow> (string \<times> JSValue) list" where
  "spread en v =
     (case v of
        VUndefined \<Rightarrow> []
      | VNull \<Rightarrow> []
      | VObject ps \<Rightarrow> ps
      | _ \<Rightarrow> map (\<lambda>k. (k, getProp en v k)) (ownKeys en v))"

text \<open>\<open>View.prototype.patch\<close>: \<open>updated = { ...current, ...partial }\<close>.\<close>

definition patch :: "Engine \<Rightarrow> View \<Rightarrow> string \<Rightarrow> JSValue \<Rightarrow> bytes \<Rightarrow> unit outcome" where
  "patch en view p partial sab =
     (if \<not> mutable view then (Inl CannotMutateImmutable, sab)
      else if length sab < schemaByteSize (schema view)
      then (Inl (BufferTooSmall (length sab) (schemaByteSize (schema view))), sab)
      else case decodePartial en view p sab of
             Inl e \<Rightarrow> (Inl e, sab)
           | Inr current \<Rightarrow>
               setValue en view p
                 (VObject (fold (\<lambda>(k, v) acc. assign acc k v) (spread en partial) (spread en current)))
                 sab)"

definition getTypedArray :: "View \<Rightarrow> string \<Rightarrow> bytes \<Rightarrow> error + JSValue" where
  "getTypedArray view p sab =
     (if length sab < schemaByteSize (schema view)
      then Inl (BufferTooSmall (length sab) (schemaByteSize (schema view)))
      else case lookup (typedArrayViews (schema view)) p of
             None \<Rightarrow> Inl (NoTypedArray p)
           | Some (t, off, n) \<Rightarrow>
               (case typedArrayView sab t (off + 4) (Some n) of
                  Inl e \<Rightarrow> Inl e
                | Inr len \<Rightarrow> Inr (VTypedArray t (read_bytes sab (off + 4) len))))"

section \<open>Diff and patch (\<open>schema-diff-patch.ts\<close>)\<close>

text \<open>\<open>Object.keys(v || {})\<close>.\<close>

definition keysOrEmpty :: "Engine \<Rightarrow> JSValue \<Rightarrow> string list" where
  "keysOrEmpty en v = (if truthy v then ownKeys en v else [])"

text \<open>
  \<open>(v || []).length\<close>; \<open>None\<close> when it is not a number, as on a plain object without a
  property of that name.
\<close>

definition lengthOrEmpty :: "Engine \<Rightarrow> JSValue \<Rightarrow> nat option" where
  "lengthOrEmpty en v =
     (if truthy v then
        (case v of
           VArray es ps \<Rightarrow> Some (length es)
         | VTypedArray t bs \<Rightarrow> Some (typedLength t bs)
         | VObject ps \<Rightarrow> (case lookup ps ''length'' of None \<Rightarrow> None | Some x \<Rightarrow> exoticLength en v)
         | _ \<Rightarrow> exoticLength en v)
      else Some 0)"

text \<open>\<open>Math.max(a, b)\<close> as a loop bound: \<open>NaN\<close> runs the loop zero times.\<close>

definition loopBound :: "nat option \<Rightarrow> nat option \<Rightarrow> nat" where
  "loopBound a b = (case (a, b) of (Some m, Some n) \<Rightarrow> max m n | _ \<Rightarrow> 0)"

text \<open>\<open>(v || [])[i]\<close>.\<close>

definition itemOrEmpty :: "Engine \<Rightarrow> JSValue \<Rightarrow> nat \<Rightarrow> JSValue" where
  "itemOrEmpty en v i =
     (if truthy v then
        (case v of
           VArray es ps \<Rightarrow> element es i
         | VObject ps \<Rightarrow> (case lookup ps (showNat i) of None \<Rightarrow> VUndefined | Some x \<Rightarrow> x)
         | _ \<Rightarrow> exoticGet en v (showNat i))
      else VUndefined)"

text \<open>
  The inner function \<open>compare\<close> of \<open>diff\<close>; \<open>compareValues\<close> of \<open>schema-compiler.ts\<close>
  has the same body. It appends to \<open>patches\<close>; the model returns the extended list. An
  \<open>Array\<close> descriptor carries its element descriptor under the key \<open>[]\<close>: inference
  stores one in every \<open>Array\<close> descriptor it builds, and the source reads it unchecked.
  For a descriptor without one, which no function of the library builds, the model ends the
  walk of the node without a patch.
\<close>

function compare ::
  "Engine \<Rightarrow> Descriptor \<Rightarrow> string \<Rightarrow> JSValue \<Rightarrow> JSValue \<Rightarrow> Patch list \<Rightarrow> Patch list" where
  "compare en desc p oldValue newValue patches =
     (if strictEq oldValue newValue then patches
      else if dtype desc = Primitive \<or> dtype desc = TypedArray
      then patches @ [\<lparr>op = Replace, ppath = p, pvalue = newValue\<rparr>]
      else if dtype desc = Object
      then fold (\<lambda>key ps.
                   case lookup (children desc) key of
                     None \<Rightarrow> ps
                   | Some subDesc \<Rightarrow>
                       compare en subDesc (if p \<noteq> [] then p @ ''.'' @ key else key)
                         (getProp en oldValue key) (getProp en newValue key) ps)
             (newSet (keysOrEmpty en oldValue @ keysOrEmpty en newValue)) patches
      else (case lookup (children desc) ''[]'' of
              None \<Rightarrow> patches
            | Some subDesc \<Rightarrow>
                fold (\<lambda>i ps.
                        compare en subDesc (p @ ''['' @ showNat i @ '']'')
                          (itemOrEmpty en oldValue i) (itemOrEmpty en newValue i) ps)
                  [0..<loopBound (lengthOrEmpty en oldValue) (lengthOrEmpty en newValue)] patches))"
  by pat_completeness auto
termination
  apply (relation "measure (\<lambda>(en, desc, p, oldValue, newValue, patches). size desc)")
    apply simp
   apply (case_tac desc; simp)
   apply (auto dest: lookup_size_lt)[1]
  apply (case_tac desc; simp)
  apply (auto dest: lookup_size_lt)[1]
  done

declare compare.simps [simp del]

definition diff :: "Engine \<Rightarrow> View \<Rightarrow> bytes \<Rightarrow> JSValue \<Rightarrow> error + Patch list" where
  "diff en view oldSab newData =
     (if length oldSab < schemaByteSize (schema view)
      then Inl (BufferTooSmall (length oldSab) (schemaByteSize (schema view)))
      else case decode view oldSab of
             Inl e \<Rightarrow> Inl e
           | Inr oldData \<Rightarrow>
               (let patches = compare en (descriptorTree (schema view)) [] oldData newData []
                in case onDiff view of
                     None \<Rightarrow> Inr patches
                   | Some hook \<Rightarrow> (case hook patches of Some e \<Rightarrow> Inl e | None \<Rightarrow> Inr patches)))"

definition applyPatch :: "Engine \<Rightarrow> View \<Rightarrow> bytes \<Rightarrow> Patch \<Rightarrow> unit outcome" where
  "applyPatch en view sab pt =
     (if \<not> mutable view then (Inl CannotPatchImmutable, sab)
      else if length sab < schemaByteSize (schema view)
      then (Inl (BufferTooSmall (length sab) (schemaByteSize (schema view))), sab)
      else case (case beforePatch view of None \<Rightarrow> None | Some hook \<Rightarrow> hook pt) of
             Some e \<Rightarrow> (Inl e, sab)
           | None \<Rightarrow>
               (case op pt of
                  Replace \<Rightarrow> setValue en view (ppath pt) (pvalue pt) sab
                | Add \<Rightarrow> setValue en view (ppath pt) (pvalue pt) sab
                | Remove \<Rightarrow> setValue en view (ppath pt) VUndefined sab
                | OtherOp name \<Rightarrow> (Inl (UnsupportedPatchOperation name), sab)))"

section \<open>The calls on a view\<close>

text \<open>
  The public calls of a view on a segment, as one function from the segment before the call
  to the result and the segment after it.
\<close>

datatype Call =
  Encode JSValue
  | SetValue string JSValue
  | BulkSet "(string \<times> JSValue) list"
  | PatchObject string JSValue
  | ApplyPatch Patch
  | Decode
  | DecodePartial string
  | GetTypedArray string

datatype Returned = Done | Value JSValue

fun isMutating :: "Call \<Rightarrow> bool" where
  "isMutating (Encode data) = True"
| "isMutating (SetValue p v) = True"
| "isMutating (BulkSet pvs) = True"
| "isMutating (PatchObject p partial) = True"
| "isMutating (ApplyPatch pt) = True"
| "isMutating Decode = False"
| "isMutating (DecodePartial p) = False"
| "isMutating (GetTypedArray p) = False"

definition completed :: "unit outcome \<Rightarrow> Returned outcome" where
  "completed r = (case r of (Inl e, sab) \<Rightarrow> (Inl e, sab) | (Inr u, sab) \<Rightarrow> (Inr Done, sab))"

definition returned :: "bytes \<Rightarrow> error + JSValue \<Rightarrow> Returned outcome" where
  "returned sab r = (case r of Inl e \<Rightarrow> (Inl e, sab) | Inr v \<Rightarrow> (Inr (Value v), sab))"

fun exec :: "Engine \<Rightarrow> View \<Rightarrow> Call \<Rightarrow> bytes \<Rightarrow> Returned outcome" where
  "exec en view (Encode data) sab = completed (encode en view data sab)"
| "exec en view (SetValue p v) sab = completed (setValue en view p v sab)"
| "exec en view (BulkSet pvs) sab = completed (bulkSet en view pvs sab)"
| "exec en view (PatchObject p partial) sab = completed (patch en view p partial sab)"
| "exec en view (ApplyPatch pt) sab = completed (applyPatch en view sab pt)"
| "exec en view Decode sab = returned sab (decode view sab)"
| "exec en view (DecodePartial p) sab = returned sab (decodePartial en view p sab)"
| "exec en view (GetTypedArray p) sab = returned sab (getTypedArray view p sab)"

section \<open>The sync handle (\<open>view-sync.ts\<close>)\<close>

text \<open>
  The fields of a \<open>ViewSync\<close> that \<open>destroy\<close> touches, and the state outside the handle:
  the registry \<open>viewSyncRegistry\<close> from segments to sets of handles and the tasks the host
  has scheduled (\<open>setTimeout\<close> or \<open>requestAnimationFrame\<close>). Segments, handles, tasks and
  callbacks are identified by numbers.
\<close>

record ViewSync =
  syncSab :: nat
  boundVariable :: "JSValue option"
  onUpdate :: "nat option"
  pollHandle :: "nat option"

record Host =
  viewSyncRegistry :: "nat \<Rightarrow> nat set option"
  scheduled :: "nat set"

text \<open>\<open>clearTimeout(h)\<close> or \<open>cancelAnimationFrame(h)\<close>.\<close>

definition cancel :: "nat \<Rightarrow> Host \<Rightarrow> Host" where
  "cancel h host = host\<lparr>scheduled := scheduled host - {h}\<rparr>"

text \<open>\<open>destroy()\<close> of the handle with identity \<open>this\<close>.\<close>

definition destroy :: "nat \<Rightarrow> ViewSync \<times> Host \<Rightarrow> ViewSync \<times> Host" where
  "destroy this = (\<lambda>(vs, host).
     (let host1 = (case pollHandle vs of None \<Rightarrow> host | Some h \<Rightarrow> cancel h host);
          host2 = (case viewSyncRegistry host1 (syncSab vs) of
                     None \<Rightarrow> host1
                   | Some handles \<Rightarrow>
                       host1\<lparr>viewSyncRegistry := (viewSyncRegistry host1)(syncSab vs := Some (handles - {this}))\<rparr>)
      in (vs\<lparr>boundVariable := None, onUpdate := None, pollHandle := None\<rparr>, host2)))"

section \<open>Concrete scenarios\<close>

text \<open>
  An engine for evaluating concrete calls. The calls evaluated below pass booleans to
  boolean slots and read properties of plain objects and arrays only; they never reach the
  engine, so its answers (a \<open>TypeError\<close> for a conversion, no property on any other
  value) play no part in them.
\<close>

definition plainEngine :: Engine where
  "plainEngine =
     \<lparr>coerceNumber = (\<lambda>v. Inl TypeError),
      coerceBigInt = (\<lambda>v. Inl TypeError),
      coerceText = (\<lambda>v. Inl TypeError),
      coerceTime = (\<lambda>v. Inl TypeError),
      coerceLength = (\<lambda>v. Inl TypeError),
      coerceElements = (\<lambda>t v. (Some 0, [], Some TypeError)),
      exoticLength = (\<lambda>v. None),
      exoticKeys = (\<lambda>v. []),
      exoticGet = (\<lambda>v k. VUndefined),
      isNumericString = (\<lambda>s. s \<noteq> [] \<and> list_all (\<lambda>c. c \<in> set ''0123456789'') s)\<rparr>"

text \<open>The sample \<open>{num: 42, str: "hello"}\<close>; \<open>0x4045000000000000\<close> is the binary64 of 42.\<close>

definition sampleNumStr :: JSValue where
  "sampleNumStr = VObject [(''num'', VNumber 0x4045000000000000), (''str'', VString ''hello'')]"

text \<open>The sample \<open>{a: true, b: false}\<close>.\<close>

definition sampleAB :: JSValue where
  "sampleAB = VObject [(''a'', VBoolean True), (''b'', VBoolean False)]"

definition schemaAB :: Schema where
  "schemaAB =
     \<lparr>descriptorTree = Descriptor Object 8 2 None
        [(''a'', Descriptor Primitive 8 1 (Some (Prim Boolean)) [] None),
         (''b'', Descriptor Primitive 9 1 (Some (Prim Boolean)) [] None)] None,
      schemaByteSize = 10,
      flatIndex = [(''a'', 8, ''Boolean''), (''b'', 9, ''Boolean''), ('''', 8, ''Object'')],
      encodingTemplate =
        [\<lparr>offset = 8, path = ''a'', tsize = 1,
          setter = BooleanAccessor SharedCurrentOffset, getter = BooleanAccessor SharedCurrentOffset\<rparr>,
         \<lparr>offset = 9, path = ''b'', tsize = 1,
          setter = BooleanAccessor SharedCurrentOffset, getter = BooleanAccessor SharedCurrentOffset\<rparr>,
         \<lparr>offset = 8, path = '''', tsize = 2, setter = ObjectAccessor, getter = ObjectAccessor\<rparr>],
      typedArrayViews = [],
      cell = 10\<rparr>"

text \<open>The sample \<open>{flag: true}\<close>, its schema and the two views on it.\<close>

definition sampleFlag :: JSValue where
  "sampleFlag = VObject [(''flag'', VBoolean True)]"

definition schemaFlag :: Schema where
  "schemaFlag =
     \<lparr>descriptorTree = Descriptor Object 8 1 None
        [(''flag'', Descriptor Primitive 8 1 (Some (Prim Boolean)) [] None)] None,
      schemaByteSize = 9,
      flatIndex = [(''flag'', 8, ''Boolean''), ('''', 8, ''Object'')],
      encodingTemplate =
        [\<lparr>offset = 8, path = ''flag'', tsize = 1,
          setter = BooleanAccessor SharedCurrentOffset, getter = BooleanAccessor SharedCurrentOffset\<rparr>,
         \<lparr>offset = 8, path = '''', tsize = 1, setter = ObjectAccessor, getter = ObjectAccessor\<rparr>],
      typedArrayViews = [],
      cell = 9\<rparr>"

definition viewFlag :: "bool \<Rightarrow> View" where
  "viewFlag m = \<lparr>mutable = m, schema = schemaFlag, onDiff = None, beforePatch = None\<rparr>"

text \<open>
  The sample \<open>{Boolean: true}\<close>, whose field is named like its type, and the mutable view
  on it.
\<close>

definition sampleBoolean :: JSValue where
  "sampleBoolean = VObject [(''Boolean'', VBoolean True)]"

definition schemaBoolean :: Schema where
  "schemaBoolean =
     \<lparr>descriptorTree = Descriptor Object 8 1 None
        [(''Boolean'', Descriptor Primitive 8 1 (Some (Prim Boolean)) [] None)] None,
      schemaByteSize = 9,
      flatIndex = [(''Boolean'', 8, ''Boolean''), ('''', 8, ''Object'')],
      encodingTemplate =
        [\<lparr>offset = 8, path = ''Boolean'', tsize = 1,
          setter = BooleanAccessor SharedCurrentOffset, getter = BooleanAccessor SharedCurrentOffset\<rparr>,
         \<lparr>offset = 8, path = '''', tsize = 1, setter = ObjectAccessor, getter = ObjectAccessor\<rparr>],
      typedArrayViews = [],
      cell = 9\<rparr>"

definition viewBoolean :: View where
  "viewBoolean = \<lparr>mutable = True, schema = schemaBoolean, onDiff = None, beforePatch = None\<rparr>"

text \<open>
  The sample \<open>{arr: [true, false]}\<close>, the schema inferred from it and the mutable view on
  it. The length prefix of \<open>arr\<close> is at byte 8 and its two elements are at bytes 12 and 13.
\<close>

definition sampleArr :: JSValue where
  "sampleArr = VObject [(''arr'', VArray [Some (VBoolean True), Some (VBoolean False)] [])]"

definition schemaArr :: Schema where
  "schemaArr =
     \<lparr>descriptorTree = Descriptor Object 8 6 None
        [(''arr'', Descriptor Array 8 6 None
            [(''[]'', Descriptor Primitive 12 1 (Some (Prim Boolean)) [] None)] (Some 2))] None,
      schemaByteSize = 14,
      flatIndex = [(''arr[]'', 12, ''Boolean''), (''arr[1]'', 13, ''Boolean''),
                   (''arr'', 8, ''Array''), ('''', 8, ''Object'')],
      encodingTemplate =
        [\<lparr>offset = 12, path = ''arr[]'', tsize = 1,
          setter = BooleanAccessor SharedCurrentOffset, getter = BooleanAccessor SharedCurrentOffset\<rparr>,
         \<lparr>offset = 13, path = ''arr[1]'', tsize = 1,
          setter = BooleanAccessor SharedCurrentOffset, getter = BooleanAccessor SharedCurrentOffset\<rparr>,
         \<lparr>offset = 8, path = ''arr'', tsize = 6,
          setter = ArrayAccessor (OwnOffset 8), getter = ArrayAccessor (OwnOffset 8)\<rparr>,
         \<lparr>offset = 8, path = '''', tsize = 6, setter = ObjectAccessor, getter = ObjectAccessor\<rparr>],
      typedArrayViews = [],
      cell = 14\<rparr>"

definition viewArr :: View where
  "viewArr = \<lparr>mutable = True, schema = schemaArr, onDiff = None, beforePatch = None\<rparr>"

section \<open>Vocabulary of the claims\<close>

text \<open>
  The address variable an accessor closure reads, if it has one.
\<close>

fun addressOf :: "Accessor \<Rightarrow> Address option" where
  "addressOf (NumberAccessor a) = Some a"
| "addressOf (StringAccessor a) = Some a"
| "addressOf (BooleanAccessor a) = Some a"
| "addressOf (BigIntAccessor a) = Some a"
| "addressOf (DateAccessor a) = Some a"
| "addressOf (TypedArrayAccessor t a) = Some a"
| "addressOf (ArrayAccessor a) = Some a"
| "addressOf ObjectAccessor = None"

text \<open>
  The accessor, run with the shared variable at \<open>c\<close>, works at an address beyond the
  8-byte header.
\<close>

definition beyondHeader :: "nat \<Rightarrow> Accessor \<Rightarrow> bool" where
  "beyondHeader c acc = (case addressOf acc of None \<Rightarrow> True | Some a \<Rightarrow> 8 \<le> resolve c a)"

text \<open>
  The invariant of inference: the cursor never drops below 8 and every constant offset a
  closure has captured is at least 8.
\<close>

definition inferOK :: "InferState \<Rightarrow> bool" where
  "inferOK st \<longleftrightarrow> 8 \<le> currentOffset st \<and>
     (\<forall>t \<in> set (templates st). \<forall>n. addressOf (setter t) = Some (OwnOffset n) \<longrightarrow> 8 \<le> n)"

text \<open>
  A schema none of whose setters can reach the header.
\<close>

definition headerSafe :: "Schema \<Rightarrow> bool" where
  "headerSafe s \<longleftrightarrow> 8 \<le> schemaByteSize s \<and>
     (\<forall>t \<in> set (encodingTemplate s). beyondHeader (cell s) (setter t))"


text \<open>
  Following the spec's words for claim C7, with no reference to the code of \<open>diff\<close>: the
  own keys of an object value, its value at a key, the length of an array value and its
  value at an index. An absent value (\<open>undefined\<close> or \<open>null\<close>) has no keys and length 0.
\<close>

definition keysOf :: "JSValue \<Rightarrow> string list" where
  "keysOf v = (case v of VObject ps \<Rightarrow> map fst ps | _ \<Rightarrow> [])"

definition memberOf :: "JSValue \<Rightarrow> string \<Rightarrow> JSValue" where
  "memberOf v k =
     (case v of
        VObject ps \<Rightarrow> (case lookup ps k of None \<Rightarrow> VUndefined | Some x \<Rightarrow> x)
      | _ \<Rightarrow> VUndefined)"

definition lengthOf :: "JSValue \<Rightarrow> nat" where
  "lengthOf v = (case v of VArray es ps \<Rightarrow> length es | _ \<Rightarrow> 0)"

definition itemOf :: "JSValue \<Rightarrow> nat \<Rightarrow> JSValue" where
  "itemOf v i = (case v of VArray es ps \<Rightarrow> element es i | _ \<Rightarrow> VUndefined)"

text \<open>
  A value of the schema's shape: any value at a \<open>Primitive\<close> or \<open>TypedArray\<close> node; at
  an \<open>Object\<close> node a plain object, each key once, whose values at the keys of the
  descriptor have the shape of the children; at an \<open>Array\<close> node an array whose elements
  have the shape of the element descriptor; at both, the value may be absent.
\<close>

function hasShape :: "Descriptor \<Rightarrow> JSValue \<Rightarrow> bool" where
  "hasShape desc v =
     (case dtype desc of
        Primitive \<Rightarrow> True
      | TypedArray \<Rightarrow> True
      | Object \<Rightarrow>
          (case v of
             VUndefined \<Rightarrow> True
           | VNull \<Rightarrow> True
           | VObject ps \<Rightarrow>
               distinct (map fst ps)
               \<and> list_all (\<lambda>(key, child). hasShape child (memberOf v key)) (children desc)
           | _ \<Rightarrow> False)
      | Array \<Rightarrow>
          (case v of
             VUndefined \<Rightarrow> True
           | VNull \<Rightarrow> True
           | VArray es ps \<Rightarrow>
               (case lookup (children desc) ''[]'' of
                  None \<Rightarrow> True
                | Some elementDesc \<Rightarrow>
                    list_all (\<lambda>i. hasShape elementDesc (element es i)) [0..<length es])
           | _ \<Rightarrow> False))"
  by pat_completeness auto
termination
  apply (relation "measure (\<lambda>(desc, v). size desc)")
    apply simp
   apply (case_tac desc; simp)
   apply (auto dest: member_size_lt)[1]
  apply (case_tac desc; simp)
  apply (auto dest: lookup_size_lt)[1]
  done

declare hasShape.simps [simp del]

text \<open>
  The candidate keys of an \<open>Object\<close> node: the keys of the old value followed by the keys
  that only the new value has, restricted to the keys of the descriptor.
\<close>

definition candidateKeys :: "Descriptor \<Rightarrow> JSValue \<Rightarrow> JSValue \<Rightarrow> string list" where
  "candidateKeys desc old new =
     filter (\<lambda>k. lookup (children desc) k \<noteq> None)
       (keysOf old @ filter (\<lambda>k. k \<notin> set (keysOf old)) (keysOf new))"

text \<open>
  The walk of the descriptor tree. Equal values give no patch and no descent; a mismatched
  \<open>Primitive\<close> or \<open>TypedArray\<close> leaf gives one \<open>replace\<close> patch with the whole new
  value; an \<open>Object\<close> node visits its candidate keys in order; an \<open>Array\<close> node visits
  the indices from 0 to the larger of the two lengths minus one, each with the single
  element descriptor. The patches are listed in the order of the walk.
\<close>

function specDiff :: "Descriptor \<Rightarrow> string \<Rightarrow> JSValue \<Rightarrow> JSValue \<Rightarrow> Patch list" where
  "specDiff desc p old new =
     (if strictEq old new then []
      else case dtype desc of
        Primitive \<Rightarrow> [\<lparr>op = Replace, ppath = p, pvalue = new\<rparr>]
      | TypedArray \<Rightarrow> [\<lparr>op = Replace, ppath = p, pvalue = new\<rparr>]
      | Object \<Rightarrow>
          concat (map (\<lambda>key.
                         case lookup (children desc) key of
                           None \<Rightarrow> []
                         | Some child \<Rightarrow>
                             specDiff child (if p \<noteq> [] then p @ ''.'' @ key else key)
                               (memberOf old key) (memberOf new key))
                    (candidateKeys desc old new))
      | Array \<Rightarrow>
          (case lookup (children desc) ''[]'' of
             None \<Rightarrow> []
           | Some elementDesc \<Rightarrow>
               concat (map (\<lambda>i. specDiff elementDesc (p @ ''['' @ showNat i @ '']'')
                                   (itemOf old i) (itemOf new i))
                         [0..<max (lengthOf old) (lengthOf new)])))"
  by pat_completeness auto
termination
  apply (relation "measure (\<lambda>(desc, p, old, new). size desc)")
    apply simp
   apply (case_tac desc; simp)
   apply (auto dest: lookup_size_lt)[1]
  apply (case_tac desc; simp)
  apply (auto dest: lookup_size_lt)[1]
  done

declare specDiff.simps [simp del]


section \<open>Auxiliary lemmas\<close>

subsection \<open>Bytes and the version counter\<close>

lemma length_write_bytes:
  "off + length bs \<le> length dv \<Longrightarrow> length (write_bytes dv off bs) = length dv"
  by (simp add: write_bytes_def)

lemma take_write_bytes:
  "off + length bs \<le> length dv \<Longrightarrow> n \<le> off \<Longrightarrow> take n (write_bytes dv off bs) = take n dv"
  by (simp add: write_bytes_def min_def)

lemma setBytes_frame:
  "setBytes dv off bs = Inr dv' \<Longrightarrow> length dv' = length dv \<and> (n \<le> off \<longrightarrow> take n dv' = take n dv)"
  by (auto simp: setBytes_def length_write_bytes take_write_bytes split: if_splits)

lemma le_nat_le_bytes: "le_nat (le_bytes n x) = x mod 256 ^ n"
proof (induction n arbitrary: x)
  case 0
  then show ?case by simp
next
  case (Suc n)
  have "unat (of_nat (x mod 256) :: byte) = x mod 256"
    by (simp add: unat_of_nat)
  then show ?case
    using Suc by (simp add: mod_mult2_eq)
qed

lemma length_le_bytes: "length (le_bytes n x) = n"
  by (induction n arbitrary: x) auto

lemma version_atomicsAdd1:
  assumes "4 \<le> length sab"
  shows "version (atomicsAdd1 sab) = version sab + 1"
proof -
  let ?bs = "le_bytes 4 (unat (version sab + 1))"
  have t: "take 4 (atomicsAdd1 sab) = ?bs"
    using assms by (simp add: atomicsAdd1_def write_bytes_def length_le_bytes)
  have "version (atomicsAdd1 sab) = of_nat (le_nat (take 4 (atomicsAdd1 sab)))"
    by (rule version_def)
  also have "\<dots> = of_nat (le_nat ?bs)"
    by (simp only: t)
  also have "\<dots> = of_nat (unat (version sab + 1) mod 256 ^ 4)"
    by (simp only: le_nat_le_bytes)
  also have "\<dots> = version sab + 1"
  proof -
    have "unat (version sab + 1) < 2 ^ 32"
      using unsigned_less[of "version sab + 1"] by simp
    then have "unat (version sab + 1) mod 256 ^ 4 = unat (version sab + 1)"
      by simp
    then show ?thesis by simp
  qed
  finally show ?thesis .
qed

lemma length_atomicsAdd1: "4 \<le> length sab \<Longrightarrow> length (atomicsAdd1 sab) = length sab"
  by (simp add: atomicsAdd1_def length_write_bytes length_le_bytes)

lemma version_cong: "take 4 a = take 4 b \<Longrightarrow> version a = version b"
  by (simp add: version_def)

lemma take4_of_take8: "take 8 a = take 8 b \<Longrightarrow> take 4 a = take 4 b"
proof -
  assume "take 8 a = take 8 b"
  then have "take 4 (take 8 a) = take 4 (take 8 b)" by simp
  then show ?thesis by simp
qed

lemma bump_version:
  assumes "length dv1 = length dv" and "take 8 dv1 = take 8 dv" and "8 \<le> length dv"
  shows "version (atomicsAdd1 dv1) = version dv + 1"
proof -
  have "version (atomicsAdd1 dv1) = version dv1 + 1"
    using assms by (simp add: version_atomicsAdd1)
  moreover have "version dv1 = version dv"
    using assms(2) by (intro version_cong take4_of_take8)
  ultimately show ?thesis by simp
qed

subsection \<open>The setters leave the header alone\<close>

lemma typedArrayView_bound:
  "typedArrayView dv t off len = Inr cap \<Longrightarrow> off + cap \<le> length dv"
  by (auto simp: typedArrayView_def Let_def split: if_splits option.splits)

lemma lift_frame:
  assumes "lift dv0 (setBytes dv off bs) = (r, dv')" and "length dv0 = length dv" and "take n dv0 = take n dv" 
    and "n \<le> off"
  shows "length dv' = length dv \<and> take n dv' = take n dv"
  using assms setBytes_frame[of dv off bs _ n]
  by (auto simp: lift_def split: sum.splits)

lemma runSetter_frame:
  assumes "runSetter en c acc dv v = (r, dv')" and "beyondHeader c acc"
  shows "length dv' = length dv \<and> take 8 dv' = take 8 dv"
proof (cases acc)
  case (NumberAccessor a)
  then show ?thesis using assms lift_frame[of dv dv "resolve c a" _ r dv' 8]
    by (auto simp: beyondHeader_def set64_def split: sum.splits)
next
  case (StringAccessor a)
  with assms have a8: "8 \<le> resolve c a" by (simp add: beyondHeader_def)
  show ?thesis
  proof (cases "toText en v")
    case (Inl e)
    then show ?thesis using assms StringAccessor by simp
  next
    case (Inr b)
    show ?thesis
    proof (cases "setUint32 dv (resolve c a) (of_nat (length b))")
      case (Inl e)
      then show ?thesis using assms StringAccessor Inr by simp
    next
      case dv1: (Inr dv1)
      then have f1: "length dv1 = length dv \<and> take 8 dv1 = take 8 dv"
        using setBytes_frame[of dv "resolve c a" _ dv1 8] a8 by (simp add: setUint32_def)
      have "lift dv1 (setBytes dv1 (resolve c a + 4) (map byteOfChar b)) = (r, dv')"
        using assms StringAccessor Inr dv1 by simp
      then have "length dv' = length dv1 \<and> take 8 dv' = take 8 dv1"
        using lift_frame[of dv1 dv1 "resolve c a + 4" _ r dv' 8] a8 by simp
      with f1 show ?thesis by simp
    qed
  qed
next
  case (BooleanAccessor a)
  then show ?thesis using assms lift_frame[of dv dv "resolve c a" _ r dv' 8]
    by (auto simp: beyondHeader_def setUint8_def split: sum.splits)
next
  case (BigIntAccessor a)
  then show ?thesis using assms lift_frame[of dv dv "resolve c a" _ r dv' 8]
    by (auto simp: beyondHeader_def set64_def split: sum.splits)
next
  case (DateAccessor a)
  then show ?thesis using assms lift_frame[of dv dv "resolve c a" _ r dv' 8]
    by (auto simp: beyondHeader_def set64_def split: sum.splits)
next
  case (TypedArrayAccessor t a)
  with assms have a8: "8 \<le> resolve c a" by (simp add: beyondHeader_def)
  show ?thesis
  proof (cases "toLength en v")
    case (Inl e)
    then show ?thesis using assms TypedArrayAccessor by simp
  next
    case (Inr w)
    show ?thesis
    proof (cases "setUint32 dv (resolve c a) w")
      case (Inl e)
      then show ?thesis using assms TypedArrayAccessor Inr by simp
    next
      case dv1: (Inr dv1)
      then have f1: "length dv1 = length dv \<and> take 8 dv1 = take 8 dv"
        using setBytes_frame[of dv "resolve c a" _ dv1 8] a8 by (simp add: setUint32_def)
      obtain len bs err where te: "toElements en t v = (len, bs, err)"
        by (cases "toElements en t v") auto
      show ?thesis
      proof (cases "typedArrayView dv1 t (resolve c a + 4) len")
        case (Inl e)
        then show ?thesis using assms TypedArrayAccessor Inr dv1 te f1 by simp
      next
        case cap: (Inr cap)
        show ?thesis
        proof (cases "cap < length bs")
          case True
          then show ?thesis using assms TypedArrayAccessor Inr dv1 te f1 cap by simp
        next
          case False
          then have fit: "resolve c a + 4 + length bs \<le> length dv1"
            using typedArrayView_bound[OF cap] by simp
          have "dv' = write_bytes dv1 (resolve c a + 4) bs"
            using assms TypedArrayAccessor Inr dv1 te cap False
            by (auto split: option.splits)
          then have "length dv' = length dv1 \<and> take 8 dv' = take 8 dv1"
            using fit a8 by (simp add: length_write_bytes take_write_bytes)
          with f1 show ?thesis by simp
        qed
      qed
    qed
  qed
next
  case (ArrayAccessor a)
  then show ?thesis using assms lift_frame[of dv dv "resolve c a" _ r dv' 8]
    by (auto simp: beyondHeader_def setUint32_def split: sum.splits)
next
  case ObjectAccessor
  then show ?thesis using assms by simp
qed

subsection \<open>Inference keeps every address beyond the header\<close>

lemma inferLeaf_ok:
  assumes "inferLeaf t tn n acc p st = (d, st')" and "inferOK st"
    and "\<forall>m. addressOf acc \<noteq> Some (OwnOffset m)"
  shows "inferOK st' \<and> currentOffset st \<le> currentOffset st'"
  using assms by (auto simp: inferLeaf_def Let_def inferOK_def)

lemma inferOK_array:
  assumes "inferOK st3" and "8 \<le> off"
  shows "inferOK (st3\<lparr>flatIndexOf := fi,
        templates := templates st3 @ [\<lparr>offset = off, path = p, tsize = sz,
           setter = ArrayAccessor (OwnOffset off), getter = g\<rparr>]\<rparr>)"
  using assms by (auto simp: inferOK_def)

lemma inferOK_object:
  assumes "inferOK st3"
  shows "inferOK (st3\<lparr>flatIndexOf := fi,
        templates := templates st3 @ [\<lparr>offset = off, path = p, tsize = sz,
           setter = ObjectAccessor, getter = g\<rparr>]\<rparr>)"
  using assms by (auto simp: inferOK_def)

lemma infer_ok:
  "(inferDescriptor v p st = Inr (d, st') \<longrightarrow> inferOK st \<longrightarrow>
      inferOK st' \<and> currentOffset st \<le> currentOffset st')"
  "(inferItems es p i child st = Inr (d, st') \<longrightarrow> inferOK st \<longrightarrow>
      inferOK st' \<and> currentOffset st \<le> currentOffset st')"
  "(inferEntries ps p off chs sz st = Inr (r, st') \<longrightarrow> inferOK st \<longrightarrow>
      inferOK st' \<and> currentOffset st \<le> currentOffset st')"
proof (induction v p st and es p i child st and ps p off chs sz st
    arbitrary: d st' and d st' and r st'
    rule: inferDescriptor_inferItems_inferEntries.induct)
  case (1 p st)
  then show ?case by auto
next
  case (2 p st)
  then show ?case by auto
next
  case (3 w p st)
  then show ?case using inferLeaf_ok[of Number] by (auto)
next
  case (4 s p st)
  then show ?case using inferLeaf_ok[of String] by (auto)
next
  case (5 b p st)
  then show ?case using inferLeaf_ok[of Boolean] by (auto)
next
  case (6 i p st)
  then show ?case using inferLeaf_ok[of BigInt] by (auto)
next
  case (7 d ps p st)
  then show ?case using inferLeaf_ok[of Date] by (auto)
next
  case (8 t bs p st)
  then show ?case by (auto simp: Let_def inferOK_def)
next
  case (9 es ps p st)
  let ?st1 = "st\<lparr>currentOffset := currentOffset st + 4\<rparr>"
  show ?case
  proof (intro impI)
    assume eq: "inferDescriptor (VArray es ps) p st = Inr (d, st')" and ok: "inferOK st"
    have ok1: "inferOK ?st1" using ok by (simp add: inferOK_def)
    have off8: "8 \<le> currentOffset st" using ok by (simp add: inferOK_def)
    define inner where "inner = (case es of
                 [] \<Rightarrow> Inr (Descriptor Primitive 0 0 (Some (Prim Null)) [] None, ?st1)
               | None # rest \<Rightarrow>
                   (case inferDescriptor VUndefined (p @ ''[]'') ?st1 of
                      Inl e \<Rightarrow> Inl e
                    | Inr (child, st2) \<Rightarrow> inferItems rest p 1 child st2)
               | Some v # rest \<Rightarrow>
                   (case inferDescriptor v (p @ ''[]'') ?st1 of
                      Inl e \<Rightarrow> Inl e
                    | Inr (child, st2) \<Rightarrow> inferItems rest p 1 child st2))"
    from eq obtain child st3 where inn: "inner = Inr (child, st3)"
      and st': "st' = st3\<lparr>flatIndexOf := assign (flatIndexOf st3) p (currentOffset st, ''Array''),
          templates := templates st3 @ [\<lparr>offset = currentOffset st, path = p,
             tsize = 4 + length es * byteSize child,
             setter = ArrayAccessor (OwnOffset (currentOffset st)),
             getter = ArrayAccessor (OwnOffset (currentOffset st))\<rparr>]\<rparr>"
      unfolding inner_def by (auto simp: Let_def split: sum.splits)
    have st3: "inferOK st3 \<and> currentOffset ?st1 \<le> currentOffset st3"
    proof (cases es)
      case Nil
      then show ?thesis using inn ok1 by (auto simp: inner_def)
    next
      case (Cons e rest)
      show ?thesis
      proof (cases e)
        case None
        have r: "inferDescriptor VUndefined (p @ ''[]'') ?st1
              = Inr (Descriptor Primitive (currentOffset ?st1) 0 (Some (Prim Undefined)) [] None, ?st1)"
          by simp
        have it: "inferItems rest p 1 (Descriptor Primitive (currentOffset ?st1) 0 (Some (Prim Undefined)) [] None) ?st1
              = Inr (child, st3)"
          using inn Cons None by (simp add: inner_def)
        show ?thesis
          using "9.IH"(2)[OF refl refl Cons None r refl] it ok1 by blast
      next
        case (Some v)
        from inn Cons Some obtain c2 st2 where
          r: "inferDescriptor v (p @ ''[]'') ?st1 = Inr (c2, st2)"
          and it: "inferItems rest p 1 c2 st2 = Inr (child, st3)"
          by (auto simp: inner_def split: sum.splits)
        from "9.IH"(3)[OF refl refl Cons Some, of c2 st2] r ok1
        have ok2: "inferOK st2 \<and> currentOffset ?st1 \<le> currentOffset st2" by simp
        from "9.IH"(4)[OF refl refl Cons Some r refl, of child st3] it ok2
        have "inferOK st3 \<and> currentOffset st2 \<le> currentOffset st3" by simp
        with ok2 show ?thesis by simp
      qed
    qed
    then have "inferOK st'" unfolding st' using inferOK_array[OF _ off8] by blast
    moreover have "currentOffset st \<le> currentOffset st'"
      using st3 by (simp add: st')
    ultimately show "inferOK st' \<and> currentOffset st \<le> currentOffset st'" by simp
  qed
next
  case (10 ps p st)
  show ?case
  proof (intro impI)
    assume eq: "inferDescriptor (VObject ps) p st = Inr (d, st')" and ok: "inferOK st"
    from eq obtain chs sz st1 where
      r: "inferEntries ps p (currentOffset st) [] 0 st = Inr ((chs, sz), st1)"
      and st': "st' = st1\<lparr>flatIndexOf := assign (flatIndexOf st1) p (currentOffset st, ''Object''),
          templates := templates st1 @ [\<lparr>offset = currentOffset st, path = p, tsize = sz,
             setter = ObjectAccessor, getter = ObjectAccessor\<rparr>]\<rparr>"
      by (auto simp: Let_def split: sum.splits)
    from "10.IH"[OF refl, of "(chs, sz)" st1] r ok
    have ok1: "inferOK st1 \<and> currentOffset st \<le> currentOffset st1" by simp
    then have "inferOK st'" unfolding st' using inferOK_object by blast
    moreover have "currentOffset st \<le> currentOffset st'" using ok1 by (simp add: st')
    ultimately show "inferOK st' \<and> currentOffset st \<le> currentOffset st'" by simp
  qed
next
  case (11 ps p st)
  then show ?case by auto
next
  case (12 p st)
  then show ?case by simp
next
  case (13 p i child st)
  then show ?case by simp
next
  case (14 rest p i child st)
  show ?case
  proof (intro impI)
    assume eq: "inferItems (None # rest) p i child st = Inr (d, st')" and ok: "inferOK st"
    have r: "inferDescriptor VUndefined (p @ ''['' @ showNat i @ '']'') st
          = Inr (Descriptor Primitive (currentOffset st) 0 (Some (Prim Undefined)) [] None, st)"
      by simp
    from eq have "inferItems rest p (i + 1)
        (setByteSize child (max (byteSize child)
           (byteSize (Descriptor Primitive (currentOffset st) 0 (Some (Prim Undefined)) [] None)))) st
        = Inr (d, st')" by simp
    with "14.IH"(2)[OF r refl, of d st'] ok
    show "inferOK st' \<and> currentOffset st \<le> currentOffset st'" by simp
  qed
next
  case (15 v rest p i child st)
  show ?case
  proof (intro impI)
    assume eq: "inferItems (Some v # rest) p i child st = Inr (d, st')" and ok: "inferOK st"
    from eq obtain x y where r: "inferDescriptor v (p @ ''['' @ showNat i @ '']'') st = Inr (x, y)"
      and it: "inferItems rest p (i + 1) (setByteSize child (max (byteSize child) (byteSize x))) y
                = Inr (d, st')"
      by (auto split: sum.splits)
    from "15.IH"(1)[of x y] r ok have oky: "inferOK y \<and> currentOffset st \<le> currentOffset y" by simp
    from "15.IH"(2)[OF r refl, of d st'] it oky
    have "inferOK st' \<and> currentOffset y \<le> currentOffset st'" by simp
    with oky show "inferOK st' \<and> currentOffset st \<le> currentOffset st'" by simp
  qed
next
  case (16 p off chs sz st)
  then show ?case by simp
next
  case (17 key val rest p off chs sz st)
  let ?cp = "if p \<noteq> [] then p @ ''.'' @ key else key"
  show ?case
  proof (intro impI)
    assume eq: "inferEntries ((key, val) # rest) p off chs sz st = Inr (r, st')" and ok: "inferOK st"
    from eq obtain x y where rr: "inferDescriptor val ?cp st = Inr (x, y)"
      and it: "inferEntries rest p off (assign chs key x) (max sz (byteOffset x + byteSize x - off)) y
                = Inr (r, st')"
      by (auto simp: Let_def split: sum.splits)
    from "17.IH"(1)[OF refl, of x y] rr ok have oky: "inferOK y \<and> currentOffset st \<le> currentOffset y" by simp
    from "17.IH"(2)[OF refl rr refl, of r st'] it oky
    have "inferOK st' \<and> currentOffset y \<le> currentOffset st'" by simp
    with oky show "inferOK st' \<and> currentOffset st \<le> currentOffset st'" by simp
  qed
qed

lemma inferSchema_headerSafe:
  assumes "inferSchema sample = Inr s"
  shows "headerSafe s"
proof -
  let ?st0 = "\<lparr>currentOffset = 8, flatIndexOf = [], templates = [], viewsOf = []\<rparr>"
  from assms obtain tree st where r: "inferDescriptor sample [] ?st0 = Inr (tree, st)"
    and s: "s = \<lparr>descriptorTree = tree, schemaByteSize = max (currentOffset st) 8,
               flatIndex = flatIndexOf st, encodingTemplate = templates st,
               typedArrayViews = viewsOf st, cell = currentOffset st\<rparr>"
    by (auto simp: inferSchema_def split: sum.splits)
  have "inferOK ?st0" by (simp add: inferOK_def)
  with infer_ok(1)[of sample "[]" ?st0 tree st] r have ok: "inferOK st" by simp
  have "beyondHeader (currentOffset st) (setter t)" if "t \<in> set (templates st)" for t
  proof (cases "addressOf (setter t)")
    case None
    then show ?thesis by (simp add: beyondHeader_def)
  next
    case (Some a)
    then show ?thesis using ok that
      by (cases a) (auto simp: beyondHeader_def inferOK_def)
  qed
  then show ?thesis by (simp add: headerSafe_def s)
qed

subsection \<open>The compiled functions and the mutating calls\<close>

lemma compiledSet_frame:
  assumes "compiledSet en s p v dv = (r, dv')" and "headerSafe s"
  shows "length dv' = length dv \<and> take 8 dv' = take 8 dv"
proof (cases "lookup (flatIndex s) p")
  case None
  then show ?thesis using assms by (simp add: compiledSet_def)
next
  case (Some entry)
  obtain off tname where e: "entry = (off, tname)" by (cases entry)
  show ?thesis
  proof (cases "find (\<lambda>t. path t = tname) (encodingTemplate s)")
    case None
    then show ?thesis using assms Some e by (simp add: compiledSet_def)
  next
    case (Some template)
    then have "template \<in> set (encodingTemplate s)"
      by (auto simp: find_Some_iff)
    then have "beyondHeader (cell s) (setter template)"
      using assms(2) by (simp add: headerSafe_def)
    moreover have "runSetter en (cell s) (setter template) dv v = (r, dv')"
      using assms(1) \<open>lookup (flatIndex s) p = Some entry\<close> e Some by (simp add: compiledSet_def)
    ultimately show ?thesis by (rule runSetter_frame[rotated])
  qed
qed

lemma setEntries_frame:
  assumes "setEntries en s pvs dv = (r, dv')" and "headerSafe s"
  shows "length dv' = length dv \<and> take 8 dv' = take 8 dv"
  using assms
proof (induction pvs arbitrary: dv)
  case Nil
  then show ?case by simp
next
  case (Cons pv pvs)
  obtain p v where pv: "pv = (p, v)" by (cases pv)
  obtain r1 dv1 where c: "compiledSet en s p v dv = (r1, dv1)" by (cases "compiledSet en s p v dv")
  have f1: "length dv1 = length dv \<and> take 8 dv1 = take 8 dv"
    using compiledSet_frame[OF c Cons.prems(2)] .
  show ?case
  proof (cases r1)
    case (Inl e)
    then show ?thesis using Cons.prems(1) pv c f1 by simp
  next
    case (Inr u)
    then have "setEntries en s pvs dv1 = (r, dv')" using Cons.prems(1) pv c by simp
    from Cons.IH[OF this Cons.prems(2)] f1 show ?thesis by simp
  qed
qed

lemma encodeEntries_frame:
  assumes "encodeEntries en c data dirty ts dv = (r, dv')"
    and "\<forall>t \<in> set ts. beyondHeader c (setter t)"
  shows "length dv' = length dv \<and> take 8 dv' = take 8 dv"
  using assms
proof (induction ts arbitrary: dv)
  case Nil
  then show ?case by simp
next
  case (Cons entry rest)
  show ?case
  proof (cases "case dirty of None \<Rightarrow> False | Some d \<Rightarrow> path entry \<notin> set d")
    case True
    then have "encodeEntries en c data dirty rest dv = (r, dv')" using Cons.prems(1) by simp
    then show ?thesis using Cons.IH Cons.prems(2) by simp
  next
    case False
    show ?thesis
    proof (cases "getValueByPath en data (path entry) = VUndefined")
      case True
      then show ?thesis using Cons.prems(1) False by (simp add: Let_def)
    next
      case nu: False
      obtain r1 dv1 where c: "runSetter en c (setter entry) dv (getValueByPath en data (path entry)) = (r1, dv1)"
        by (cases "runSetter en c (setter entry) dv (getValueByPath en data (path entry))")
      have f1: "length dv1 = length dv \<and> take 8 dv1 = take 8 dv"
        using runSetter_frame[OF c] Cons.prems(2) by simp
      show ?thesis
      proof (cases r1)
        case (Inl e)
        then show ?thesis using Cons.prems(1) False nu c f1 by (simp add: Let_def)
      next
        case (Inr u)
        then have "encodeEntries en c data dirty rest dv1 = (r, dv')"
          using Cons.prems(1) False nu c by (simp add: Let_def)
        from Cons.IH[OF this] Cons.prems(2) f1 show ?thesis by simp
      qed
    qed
  qed
qed

lemma encodeEntries_no_dirty:
  "encodeEntries en c data (Some []) ts dv = (Inr (), dv)"
  by (induction ts) auto

lemma setValue_version:
  assumes "setValue en view p v dv = (Inr u, dv')" and "headerSafe (schema view)"
  shows "version dv' = version dv + 1"
proof -
  from assms(1) have len: "schemaByteSize (schema view) \<le> length dv"
    by (auto simp: setValue_def split: if_splits)
  from assms(1) obtain dv1 where c: "compiledSet en (schema view) p v dv = (Inr (), dv1)"
    and d: "dv' = atomicsAdd1 dv1"
    by (auto simp: setValue_def split: if_splits sum.splits prod.splits)
  from compiledSet_frame[OF c assms(2)] len assms(2) show ?thesis
    unfolding d by (intro bump_version) (auto simp: headerSafe_def)
qed

lemma bulkSet_version:
  assumes "bulkSet en view pvs dv = (Inr u, dv')" and "headerSafe (schema view)"
  shows "version dv' = version dv + 1"
proof -
  from assms(1) have len: "schemaByteSize (schema view) \<le> length dv"
    by (auto simp: bulkSet_def split: if_splits)
  from assms(1) obtain dv1 where c: "setEntries en (schema view) pvs dv = (Inr (), dv1)"
    and d: "dv' = atomicsAdd1 dv1"
    by (auto simp: bulkSet_def split: if_splits sum.splits prod.splits)
  from setEntries_frame[OF c assms(2)] len assms(2) show ?thesis
    unfolding d by (intro bump_version) (auto simp: headerSafe_def)
qed

lemma encode_version:
  assumes "encode en view data dv = (Inr u, dv')" and "headerSafe (schema view)"
  shows "version dv' = version dv + 1"
proof -
  from assms(1) have len: "schemaByteSize (schema view) \<le> length dv"
    by (auto simp: encode_def split: if_splits)
  from assms(1) have d: "dv' = atomicsAdd1 dv"
    by (auto simp: encode_def compiledEncode_def encodeEntries_no_dirty split: if_splits)
  show ?thesis unfolding d using len assms(2)
    by (intro bump_version) (auto simp: headerSafe_def)
qed

lemma patch_version:
  assumes "patch en view p partial dv = (Inr u, dv')" and "headerSafe (schema view)"
  shows "version dv' = version dv + 1"
proof -
  from assms(1) obtain w where "setValue en view p w dv = (Inr u, dv')"
    by (auto simp: patch_def split: if_splits sum.splits)
  then show ?thesis using assms(2) by (rule setValue_version)
qed

lemma applyPatch_version:
  assumes "applyPatch en view dv pt = (Inr u, dv')" and "headerSafe (schema view)"
  shows "version dv' = version dv + 1"
proof -
  from assms(1) obtain w where "setValue en view (ppath pt) w dv = (Inr u, dv')"
    by (auto simp: applyPatch_def split: if_splits option.splits PatchOp.splits)
  then show ?thesis using assms(2) by (rule setValue_version)
qed

subsection \<open>The scenarios\<close>

lemma createView_flag: "createView sampleFlag opt = Inr (viewFlag (case opt of None \<Rightarrow> False | Some m \<Rightarrow> m))"
  by (simp add: createView_def inferSchema_def inferLeaf_def Let_def sampleFlag_def
      schemaFlag_def viewFlag_def)

lemma inferSchema_boolean: "inferSchema sampleBoolean = Inr (schema viewBoolean)"
  by (simp add: inferSchema_def inferLeaf_def Let_def sampleBoolean_def
      schemaBoolean_def viewBoolean_def)

subsection \<open>Undefined values\<close>




subsection \<open>Insertion-ordered sets and folds\<close>

lemma fold_setAdd:
  "fold (\<lambda>x s. setAdd s x) xs acc = acc @ filter (\<lambda>x. x \<notin> set acc) (newSet xs)"
proof (induction xs arbitrary: acc)
  case Nil
  then show ?case by (simp add: newSet_def)
next
  case (Cons x xs)
  have n: "newSet (x # xs) = x # filter (\<lambda>y. y \<noteq> x) (newSet xs)"
    using Cons.IH[of "[x]"] by (simp add: newSet_def setAdd_def)
  show ?case
  proof (cases "x \<in> set acc")
    case True
    have "filter (\<lambda>y. y \<notin> set acc) (filter (\<lambda>y. y \<noteq> x) (newSet xs))
          = filter (\<lambda>y. y \<notin> set acc) (newSet xs)"
      using True by (auto intro: filter_cong)
    then show ?thesis using True Cons.IH[of acc] n by (simp add: setAdd_def)
  next
    case False
    have "filter (\<lambda>y. y \<notin> set (acc @ [x])) (newSet xs)
          = filter (\<lambda>y. y \<notin> set acc) (filter (\<lambda>y. y \<noteq> x) (newSet xs))"
      by (auto intro: filter_cong)
    then show ?thesis using False Cons.IH[of "acc @ [x]"] n by (simp add: setAdd_def)
  qed
qed

lemma newSet_Cons: "newSet (x # xs) = x # filter (\<lambda>y. y \<noteq> x) (newSet xs)"
  using fold_setAdd[of xs "[x]"] by (simp add: newSet_def setAdd_def)

lemma distinct_newSet: "distinct (newSet xs)"
proof (induction xs)
  case Nil
  then show ?case by (simp add: newSet_def)
next
  case (Cons x xs)
  then show ?case by (simp add: newSet_Cons)
qed

lemma newSet_distinct: "distinct xs \<Longrightarrow> newSet xs = xs"
proof (induction xs)
  case Nil
  then show ?case by (simp add: newSet_def)
next
  case (Cons x xs)
  then have "filter (\<lambda>y. y \<noteq> x) xs = xs" by (auto intro: filter_True)
  with Cons show ?case by (simp add: newSet_Cons)
qed

lemma newSet_append:
  assumes "distinct xs" and "distinct ys"
  shows "newSet (xs @ ys) = xs @ filter (\<lambda>y. y \<notin> set xs) ys"
proof -
  have "newSet (xs @ ys) = fold (\<lambda>x s. setAdd s x) ys (newSet xs)"
    by (simp add: newSet_def)
  also have "\<dots> = newSet xs @ filter (\<lambda>y. y \<notin> set (newSet xs)) (newSet ys)"
    by (rule fold_setAdd)
  finally show ?thesis using assms by (simp add: newSet_distinct)
qed

lemma distinct_keysOrEmpty: "distinct (keysOrEmpty en v)"
  by (simp add: keysOrEmpty_def ownKeys_def distinct_newSet)

lemma fold_appends:
  assumes "\<And>x acc. x \<in> set xs \<Longrightarrow> f x acc = acc @ g x"
  shows "fold f xs acc = acc @ concat (map g xs)"
  using assms by (induction xs arbitrary: acc) auto

lemma concat_map_filter:
  assumes "\<And>x. x \<in> set xs \<Longrightarrow> \<not> P x \<Longrightarrow> g x = []"
  shows "concat (map g (filter P xs)) = concat (map g xs)"
  using assms by (induction xs) auto

subsection \<open>The diff walk\<close>

lemma lookup_member: "lookup ps k = Some v \<Longrightarrow> (k, v) \<in> set ps"
  by (induction ps) (auto split: if_splits)

lemma hasShape_absent: "hasShape desc VUndefined"
  by (simp add: hasShape.simps[of desc] split: DescriptorType.split)

lemma shape_object:
  assumes "dtype desc = Object" and "hasShape desc v"
  shows "keysOrEmpty en v = keysOf v"
    and "getProp en v key = memberOf v key"
    and "lookup (children desc) key = Some child \<Longrightarrow> hasShape child (memberOf v key)"
proof -
  from assms consider "v = VUndefined" | "v = VNull"
    | ps where "v = VObject ps" "distinct (map fst ps)"
        "list_all (\<lambda>(key, child). hasShape child (memberOf v key)) (children desc)"
    by (cases v) (auto simp: hasShape.simps[of desc])
  note shape = this
  show "keysOrEmpty en v = keysOf v"
    using shape by cases (auto simp: keysOrEmpty_def keysOf_def ownKeys_def newSet_distinct)
  show "getProp en v key = memberOf v key"
    using shape by cases (auto simp: getProp_def memberOf_def)
  show "hasShape child (memberOf v key)" if "lookup (children desc) key = Some child"
    using shape
  proof cases
    case 1
    then show ?thesis by (simp add: memberOf_def hasShape_absent)
  next
    case 2
    then show ?thesis by (simp add: memberOf_def hasShape_absent)
  next
    case (3 ps)
    from that have "(key, child) \<in> set (children desc)" by (rule lookup_member)
    with 3(3) show ?thesis by (auto simp: list_all_iff)
  qed
qed

lemma shape_array:
  assumes "dtype desc = Array" and "lookup (children desc) ''[]'' = Some elementDesc"
    and "hasShape desc v"
  shows "lengthOrEmpty en v = Some (lengthOf v)"
    and "itemOrEmpty en v i = itemOf v i"
    and "hasShape elementDesc (itemOf v i)"
proof -
  from assms consider "v = VUndefined" | "v = VNull"
    | es ps where "v = VArray es ps"
        "list_all (\<lambda>i. hasShape elementDesc (element es i)) [0..<length es]"
    by (cases v) (auto simp: hasShape.simps[of desc])
  note shape = this
  show "lengthOrEmpty en v = Some (lengthOf v)"
    using shape by cases (auto simp: lengthOrEmpty_def lengthOf_def)
  show "itemOrEmpty en v i = itemOf v i"
    using shape by cases (auto simp: itemOrEmpty_def itemOf_def)
  show "hasShape elementDesc (itemOf v i)"
    using shape
  proof cases
    case 1
    then show ?thesis by (simp add: itemOf_def hasShape_absent)
  next
    case 2
    then show ?thesis by (simp add: itemOf_def hasShape_absent)
  next
    case (3 es ps)
    show ?thesis
    proof (cases "i < length es")
      case True
      with 3 show ?thesis by (auto simp: itemOf_def list_all_iff)
    next
      case False
      with 3 show ?thesis by (simp add: itemOf_def element_def hasShape_absent)
    qed
  qed
qed

text \<open>
  On values of the schema's shape, the \<open>compare\<close> function of \<open>diff\<close> appends exactly the
  patches of the walk \<open>specDiff\<close>.
\<close>

lemma compare_specDiff:
  "hasShape desc oldValue \<Longrightarrow> hasShape desc newValue \<Longrightarrow>
   compare en desc p oldValue newValue patches = patches @ specDiff desc p oldValue newValue"
proof (induction en desc p oldValue newValue patches rule: compare.induct)
  case (1 en desc p oldValue newValue patches)
  note so = \<open>hasShape desc oldValue\<close> and sn = \<open>hasShape desc newValue\<close>
  show ?case
  proof (cases "strictEq oldValue newValue")
    case True
    then show ?thesis by (simp add: compare.simps[of en desc] specDiff.simps[of desc])
  next
    case ne: False
    show ?thesis
    proof (cases "dtype desc")
      case Primitive
      then show ?thesis using ne by (simp add: compare.simps[of en desc] specDiff.simps[of desc])
    next
      case TypedArray
      then show ?thesis using ne by (simp add: compare.simps[of en desc] specDiff.simps[of desc])
    next
      case Object
      note ko = shape_object(1)[OF Object so, of en] and kn = shape_object(1)[OF Object sn, of en]
      let ?keys = "newSet (keysOf oldValue @ keysOf newValue)"
      let ?g = "\<lambda>key. case lookup (children desc) key of
                           None \<Rightarrow> []
                         | Some child \<Rightarrow>
                             specDiff child (if p \<noteq> [] then p @ ''.'' @ key else key)
                               (memberOf oldValue key) (memberOf newValue key)"
      let ?f = "\<lambda>key ps. case lookup (children desc) key of
                     None \<Rightarrow> ps
                   | Some subDesc \<Rightarrow>
                       compare en subDesc (if p \<noteq> [] then p @ ''.'' @ key else key)
                         (getProp en oldValue key) (getProp en newValue key) ps"
      have step: "?f key acc = acc @ ?g key" if "key \<in> set ?keys" for key acc
      proof (cases "lookup (children desc) key")
        case None
        then show ?thesis by simp
      next
        case (Some subDesc)
        have k: "key \<in> set (newSet (keysOrEmpty en oldValue @ keysOrEmpty en newValue))"
          using that by (simp add: ko kn)
        have go: "getProp en oldValue key = memberOf oldValue key"
          by (rule shape_object(2)[OF Object so])
        have gn: "getProp en newValue key = memberOf newValue key"
          by (rule shape_object(2)[OF Object sn])
        have ho: "hasShape subDesc (getProp en oldValue key)"
          unfolding go by (rule shape_object(3)[OF Object so Some])
        have hn: "hasShape subDesc (getProp en newValue key)"
          unfolding gn by (rule shape_object(3)[OF Object sn Some])
        from "1.IH"(1)[OF ne _ _ k Some ho hn, of acc] Object Some go gn show ?thesis by simp
      qed
      have "compare en desc p oldValue newValue patches = fold ?f ?keys patches"
        using ne Object by (simp add: compare.simps[of en desc] ko kn)
      also have "\<dots> = patches @ concat (map ?g ?keys)"
        using step by (rule fold_appends)
      also have "?keys = keysOf oldValue @ filter (\<lambda>k. k \<notin> set (keysOf oldValue)) (keysOf newValue)"
        using distinct_keysOrEmpty[of en oldValue] distinct_keysOrEmpty[of en newValue]
        unfolding ko kn by (rule newSet_append)
      also have "concat (map ?g (keysOf oldValue
            @ filter (\<lambda>k. k \<notin> set (keysOf oldValue)) (keysOf newValue)))
          = concat (map ?g (candidateKeys desc oldValue newValue))"
        unfolding candidateKeys_def
        by (rule concat_map_filter[symmetric]) simp
      also have "concat (map ?g (candidateKeys desc oldValue newValue))
          = specDiff desc p oldValue newValue"
        using ne Object by (simp add: specDiff.simps[of desc])
      finally show ?thesis .
    next
      case Array
      show ?thesis
      proof (cases "lookup (children desc) ''[]''")
        case None
        then show ?thesis using ne Array
          by (simp add: compare.simps[of en desc] specDiff.simps[of desc])
      next
        case (Some subDesc)
        note lo = shape_array(1)[OF Array Some so, of en] and ln = shape_array(1)[OF Array Some sn, of en]
        let ?n = "max (lengthOf oldValue) (lengthOf newValue)"
        have n: "loopBound (lengthOrEmpty en oldValue) (lengthOrEmpty en newValue) = ?n"
          by (simp add: lo ln loopBound_def)
        let ?g = "\<lambda>i. specDiff subDesc (p @ ''['' @ showNat i @ '']'')
                                   (itemOf oldValue i) (itemOf newValue i)"
        let ?f = "\<lambda>i ps. compare en subDesc (p @ ''['' @ showNat i @ '']'')
                          (itemOrEmpty en oldValue i) (itemOrEmpty en newValue i) ps"
        have step: "?f i acc = acc @ ?g i" if "i \<in> set [0..<?n]" for i acc
        proof -
          have i: "i \<in> set [0..<loopBound (lengthOrEmpty en oldValue) (lengthOrEmpty en newValue)]"
            using that by (simp only: n)
          have go: "itemOrEmpty en oldValue i = itemOf oldValue i"
            by (rule shape_array(2)[OF Array Some so])
          have gn: "itemOrEmpty en newValue i = itemOf newValue i"
            by (rule shape_array(2)[OF Array Some sn])
          have ho: "hasShape subDesc (itemOrEmpty en oldValue i)"
            unfolding go by (rule shape_array(3)[OF Array Some so])
          have hn: "hasShape subDesc (itemOrEmpty en newValue i)"
            unfolding gn by (rule shape_array(3)[OF Array Some sn])
          from "1.IH"(2)[OF ne _ _ Some i ho hn, of acc] Array go gn show ?thesis by simp
        qed
        have "compare en desc p oldValue newValue patches = fold ?f [0..<?n] patches"
          using ne Array Some by (simp add: compare.simps[of en desc] n)
        also have "\<dots> = patches @ concat (map ?g [0..<?n])"
          using step by (rule fold_appends)
        also have "concat (map ?g [0..<?n]) = specDiff desc p oldValue newValue"
          using ne Array Some by (simp add: specDiff.simps[of desc])
        finally show ?thesis .
      qed
    qed
  qed
qed

section \<open>The claims\<close>

text \<open>
  Claim C1 (the code departs from it). The claim requires every template's setter and
  getter to work at the template's own offset. On the sample \<open>{a: true, b: false}\<close> the
  templates of \<open>a\<close> and \<open>b\<close> record the offsets 8 and 9, but their closures read the
  shared variable, which holds 10 after inference: on an 11-byte segment both setters write
  byte 10 and leave bytes 8 and 9 alone, the getter of \<open>a\<close> reads byte 10 and not byte
  8, and on a segment of exactly \<open>byteSize\<close> bytes the setter throws \<open>RangeError\<close>.
\<close>

theorem accessors_share_final_cursor:
  "inferSchema sampleAB = Inr schemaAB
   \<and> map offset (encodingTemplate schemaAB) = [8, 9, 8]
   \<and> runSetter plainEngine (cell schemaAB) (setter (encodingTemplate schemaAB ! 0))
         [0, 0, 0, 0, 0, 0, 0, 0, 0, 0, 0] (VBoolean True)
       = (Inr (), [0, 0, 0, 0, 0, 0, 0, 0, 0, 0, 1])
   \<and> runSetter plainEngine (cell schemaAB) (setter (encodingTemplate schemaAB ! 1))
         [0, 0, 0, 0, 0, 0, 0, 0, 0, 0, 0] (VBoolean True)
       = (Inr (), [0, 0, 0, 0, 0, 0, 0, 0, 0, 0, 1])
   \<and> runGetter (cell schemaAB) (getter (encodingTemplate schemaAB ! 0))
         [0, 0, 0, 0, 0, 0, 0, 0, 1, 0, 0]
       = Inr (VBoolean False)
   \<and> runSetter plainEngine (cell schemaAB) (setter (encodingTemplate schemaAB ! 0))
         [0, 0, 0, 0, 0, 0, 0, 0, 0, 0] (VBoolean True)
       = (Inl RangeError, [0, 0, 0, 0, 0, 0, 0, 0, 0, 0])"
  by (simp add: sampleAB_def schemaAB_def inferSchema_def inferLeaf_def Let_def
      setUint8_def setBytes_def write_bytes_def lift_def getUint8_def getBytes_def read_bytes_def)

text \<open>
  Claim C2 (the code departs from it). The claim requires \<open>decode\<close> after
  \<open>encode\<close> to return the encoded value. On the sample \<open>{flag: true}\<close>, with a
  mutable view and a zeroed segment of \<open>byteSize = 9\<close> bytes, \<open>encode\<close> succeeds,
  increments the version and writes no field byte, since the compiled \<open>encode\<close> skips
  every template that is not in the empty set of dirty fields; \<open>decode\<close> then returns
  \<open>{flag: {flag: false}}\<close>.
\<close>

theorem encode_then_decode_flag:
  "createView sampleFlag (Some True) = Inr (viewFlag True)
   \<and> encode plainEngine (viewFlag True) sampleFlag [0, 0, 0, 0, 0, 0, 0, 0, 0]
       = (Inr (), [1, 0, 0, 0, 0, 0, 0, 0, 0])
   \<and> decode (viewFlag True) [1, 0, 0, 0, 0, 0, 0, 0, 0]
       = Inr (VObject [(''flag'', VObject [(''flag'', VBoolean False)])])"
proof (intro conjI)
  show "createView sampleFlag (Some True) = Inr (viewFlag True)"
    by (simp add: createView_def inferSchema_def inferLeaf_def Let_def sampleFlag_def
        schemaFlag_def viewFlag_def)
  show "encode plainEngine (viewFlag True) sampleFlag [0, 0, 0, 0, 0, 0, 0, 0, 0]
       = (Inr (), [1, 0, 0, 0, 0, 0, 0, 0, 0])"
    by code_simp
  show "decode (viewFlag True) [1, 0, 0, 0, 0, 0, 0, 0, 0]
       = Inr (VObject [(''flag'', VObject [(''flag'', VBoolean False)])])"
    by code_simp
qed

text \<open>
  Claim C3. On a view whose schema was inferred from a sample, every mutating call
  (\<open>encode\<close>, \<open>set\<close>, \<open>bulkSet\<close>, \<open>patch\<close>, \<open>applyPatch\<close>) that succeeds
  leaves the 32-bit counter at bytes 0 to 3 exactly one higher, modulo \<open>2^32\<close>, than it
  found it, and every read-only call (\<open>decode\<close>, \<open>decodePartial\<close>,
  \<open>getTypedArray\<close>) leaves the whole segment, hence the counter, as it found it.
\<close>

theorem version_counter:
  assumes "inferSchema sample = Inr (schema view)"
  shows "(isMutating call \<and> exec en view call dv = (Inr r, dv') \<longrightarrow> version dv' = version dv + 1)
       \<and> (\<not> isMutating call \<longrightarrow> snd (exec en view call dv) = dv)"
proof -
  have hs: "headerSafe (schema view)" using assms by (rule inferSchema_headerSafe)
  show ?thesis
  proof (cases call)
    case (Encode data)
    then show ?thesis using encode_version[OF _ hs, of en data dv _ dv']
      by (auto simp: completed_def split: prod.splits sum.splits)
  next
    case (SetValue p v)
    then show ?thesis using setValue_version[OF _ hs, of en p v dv _ dv']
      by (auto simp: completed_def split: prod.splits sum.splits)
  next
    case (BulkSet pvs)
    then show ?thesis using bulkSet_version[OF _ hs, of en pvs dv _ dv']
      by (auto simp: completed_def split: prod.splits sum.splits)
  next
    case (PatchObject p partial)
    then show ?thesis using patch_version[OF _ hs, of en p partial dv _ dv']
      by (auto simp: completed_def split: prod.splits sum.splits)
  next
    case (ApplyPatch pt)
    then show ?thesis using applyPatch_version[OF _ hs, of en dv pt _ dv']
      by (auto simp: completed_def split: prod.splits sum.splits)
  next
    case Decode
    then show ?thesis by (simp add: returned_def split: sum.splits)
  next
    case (DecodePartial p)
    then show ?thesis by (simp add: returned_def split: sum.splits)
  next
    case (GetTypedArray p)
    then show ?thesis by (simp add: returned_def split: sum.splits)
  qed
qed

text \<open>
  The version counter theorem on the mutable view of \<open>{Boolean: true}\<close>: a successful
  \<open>set\<close> takes the counter from 41 to 42, and \<open>decode\<close> leaves the segment alone.
\<close>

theorem version_counter_witness:
  "inferSchema sampleBoolean = Inr (schema viewBoolean)
   \<and> isMutating (SetValue ''Boolean'' (VBoolean True))
   \<and> exec plainEngine viewBoolean (SetValue ''Boolean'' (VBoolean True))
         [41, 0, 0, 0, 0, 0, 0, 0, 0, 0]
       = (Inr Done, [42, 0, 0, 0, 0, 0, 0, 0, 0, 1])
   \<and> version [42, 0, 0, 0, 0, 0, 0, 0, 0, 1] = version [41, 0, 0, 0, 0, 0, 0, 0, 0, 0] + 1
   \<and> \<not> isMutating Decode
   \<and> snd (exec plainEngine viewBoolean Decode [41, 0, 0, 0, 0, 0, 0, 0, 0, 0])
       = [41, 0, 0, 0, 0, 0, 0, 0, 0, 0]"
proof -
  have e: "exec plainEngine viewBoolean (SetValue ''Boolean'' (VBoolean True))
         [41, 0, 0, 0, 0, 0, 0, 0, 0, 0]
       = (Inr Done, [42, 0, 0, 0, 0, 0, 0, 0, 0, 1])"
    by code_simp
  from version_counter[OF inferSchema_boolean, of "SetValue ''Boolean'' (VBoolean True)"
      plainEngine "[41, 0, 0, 0, 0, 0, 0, 0, 0, 0]" Done "[42, 0, 0, 0, 0, 0, 0, 0, 0, 1]"]
    version_counter[OF inferSchema_boolean, of Decode plainEngine
      "[41, 0, 0, 0, 0, 0, 0, 0, 0, 0]"]
    e inferSchema_boolean
  show ?thesis by simp
qed

text \<open>
  Claim C4 fails for \<open>encode\<close>: on the view of \<open>{flag: true}\<close> created without
  options, hence immutable, \<open>encode\<close> into a segment of exactly \<open>byteSize\<close> bytes
  succeeds and writes the version counter.
\<close>

theorem immutable_encode_counterexample:
  "createView sampleFlag None = Inr (viewFlag False)
   \<and> \<not> mutable (viewFlag False)
   \<and> encode plainEngine (viewFlag False) sampleFlag [0, 0, 0, 0, 0, 0, 0, 0, 0]
       = (Inr (), [1, 0, 0, 0, 0, 0, 0, 0, 0])"
proof (intro conjI)
  show "createView sampleFlag None = Inr (viewFlag False)"
    by (simp add: createView_def inferSchema_def inferLeaf_def Let_def sampleFlag_def
        schemaFlag_def viewFlag_def)
  show "\<not> mutable (viewFlag False)"
    by (simp add: viewFlag_def)
  show "encode plainEngine (viewFlag False) sampleFlag [0, 0, 0, 0, 0, 0, 0, 0, 0]
       = (Inr (), [1, 0, 0, 0, 0, 0, 0, 0, 0])"
    by code_simp
qed

text \<open>
  Claim C4, amended. On a view with \<open>mutable = false\<close>, the calls \<open>set\<close>,
  \<open>bulkSet\<close>, \<open>patch\<close> and \<open>applyPatch\<close> fail with the immutable-view error and
  leave the segment as it was. \<open>encode\<close> on such a view fails without writing when the
  size of the segment differs from \<open>byteSize\<close>, with the buffer-too-small error for a
  smaller segment and the size-mismatch error of immutable views for a larger one; on a
  segment of exactly \<open>byteSize\<close> bytes it does what it does on a mutable view.
\<close>

theorem immutable_view_calls:
  assumes "\<not> mutable view"
  shows "setValue en view p v dv = (Inl CannotMutateImmutable, dv)
       \<and> bulkSet en view pvs dv = (Inl CannotMutateImmutable, dv)
       \<and> patch en view p partial dv = (Inl CannotMutateImmutable, dv)
       \<and> applyPatch en view dv pt = (Inl CannotPatchImmutable, dv)
       \<and> (length dv < schemaByteSize (schema view) \<longrightarrow>
            encode en view data dv
              = (Inl (BufferTooSmall (length dv) (schemaByteSize (schema view))), dv))
       \<and> (schemaByteSize (schema view) < length dv \<longrightarrow>
            encode en view data dv = (Inl ImmutableSizeMismatch, dv))
       \<and> (length dv = schemaByteSize (schema view) \<longrightarrow>
            encode en view data dv = encode en (view\<lparr>mutable := True\<rparr>) data dv)"
  using assms by (simp add: setValue_def bulkSet_def patch_def applyPatch_def encode_def)

text \<open>
  The amended claim C4 on the immutable view of \<open>{flag: true}\<close> and a 10-byte
  segment.
\<close>

theorem immutable_view_calls_witness:
  "\<not> mutable (viewFlag False)
   \<and> setValue plainEngine (viewFlag False) ''flag'' (VBoolean False) [0, 0, 0, 0, 0, 0, 0, 0, 1, 0]
       = (Inl CannotMutateImmutable, [0, 0, 0, 0, 0, 0, 0, 0, 1, 0])
   \<and> bulkSet plainEngine (viewFlag False) [(''flag'', VBoolean False)] [0, 0, 0, 0, 0, 0, 0, 0, 1, 0]
       = (Inl CannotMutateImmutable, [0, 0, 0, 0, 0, 0, 0, 0, 1, 0])
   \<and> patch plainEngine (viewFlag False) ''flag'' (VObject []) [0, 0, 0, 0, 0, 0, 0, 0, 1, 0]
       = (Inl CannotMutateImmutable, [0, 0, 0, 0, 0, 0, 0, 0, 1, 0])
   \<and> applyPatch plainEngine (viewFlag False) [0, 0, 0, 0, 0, 0, 0, 0, 1, 0]
         \<lparr>op = Replace, ppath = ''flag'', pvalue = VBoolean False\<rparr>
       = (Inl CannotPatchImmutable, [0, 0, 0, 0, 0, 0, 0, 0, 1, 0])
   \<and> schemaByteSize (schema (viewFlag False)) < length [0, 0, 0, 0, 0, 0, 0, 0, 1, 0 :: byte]
   \<and> encode plainEngine (viewFlag False) sampleFlag [0, 0, 0, 0, 0, 0, 0, 0, 1, 0]
       = (Inl ImmutableSizeMismatch, [0, 0, 0, 0, 0, 0, 0, 0, 1, 0])"
proof -
  have m: "\<not> mutable (viewFlag False)" by (simp add: viewFlag_def)
  have l: "schemaByteSize (schema (viewFlag False)) < length [0, 0, 0, 0, 0, 0, 0, 0, 1, 0 :: byte]"
    by (simp add: viewFlag_def schemaFlag_def)
  from immutable_view_calls[OF m, of plainEngine "''flag''" "VBoolean False"
      "[0, 0, 0, 0, 0, 0, 0, 0, 1, 0]" "[(''flag'', VBoolean False)]" "VObject []"
      "\<lparr>op = Replace, ppath = ''flag'', pvalue = VBoolean False\<rparr>" sampleFlag] m l
  show ?thesis by simp
qed

text \<open>
  Claim C5 fails for \<open>bulkSet\<close>: on the mutable view of \<open>{Boolean: true}\<close> and a
  zeroed segment of 10 bytes, \<open>bulkSet({Boolean: true, zz: true})\<close> throws for the
  unknown path \<open>zz\<close> after the first entry has written byte 9.
\<close>

theorem bulkSet_partial_write_counterexample:
  "createView sampleBoolean (Some True) = Inr viewBoolean
   \<and> bulkSet plainEngine viewBoolean [(''Boolean'', VBoolean True), (''zz'', VBoolean True)]
         [0, 0, 0, 0, 0, 0, 0, 0, 0, 0]
       = (Inl (InvalidPath ''zz''), [0, 0, 0, 0, 0, 0, 0, 0, 0, 1])"
proof (intro conjI)
  show "createView sampleBoolean (Some True) = Inr viewBoolean"
    by (simp add: createView_def inferSchema_def inferLeaf_def Let_def sampleBoolean_def
        schemaBoolean_def viewBoolean_def)
  show "bulkSet plainEngine viewBoolean [(''Boolean'', VBoolean True), (''zz'', VBoolean True)]
         [0, 0, 0, 0, 0, 0, 0, 0, 0, 0]
       = (Inl (InvalidPath ''zz''), [0, 0, 0, 0, 0, 0, 0, 0, 0, 1])"
    by code_simp
qed

text \<open>
  Claim C5, amended. Whenever \<open>encode\<close> throws, every byte of the segment is
  unchanged. \<open>bulkSet\<close> checks mutability and the size of the segment before it writes,
  so a call that these checks reject leaves every byte unchanged; it checks each path only
  when it reaches it, and on a view with an inferred schema a \<open>bulkSet\<close> that throws
  leaves the length of the segment, its 8 header bytes and its version counter unchanged.
\<close>

theorem encode_bulkSet_failures:
  "(encode en view data dv = (Inl e, dv') \<longrightarrow> dv' = dv)
   \<and> (\<not> mutable view \<longrightarrow> bulkSet en view pvs dv = (Inl CannotMutateImmutable, dv))
   \<and> (mutable view \<and> length dv < schemaByteSize (schema view) \<longrightarrow>
        bulkSet en view pvs dv
          = (Inl (BufferTooSmall (length dv) (schemaByteSize (schema view))), dv))
   \<and> (inferSchema sample = Inr (schema view) \<and> bulkSet en view pvs dv = (Inl e, dv') \<longrightarrow>
        length dv' = length dv \<and> take 8 dv' = take 8 dv \<and> version dv' = version dv)"
proof (intro conjI impI)
  assume "encode en view data dv = (Inl e, dv')"
  then show "dv' = dv"
    by (auto simp: encode_def compiledEncode_def encodeEntries_no_dirty split: if_splits)
next
  assume "\<not> mutable view"
  then show "bulkSet en view pvs dv = (Inl CannotMutateImmutable, dv)"
    by (simp add: bulkSet_def)
next
  assume "mutable view \<and> length dv < schemaByteSize (schema view)"
  then show "bulkSet en view pvs dv
          = (Inl (BufferTooSmall (length dv) (schemaByteSize (schema view))), dv)"
    by (simp add: bulkSet_def)
next
  assume a: "inferSchema sample = Inr (schema view) \<and> bulkSet en view pvs dv = (Inl e, dv')"
  then have hs: "headerSafe (schema view)" using inferSchema_headerSafe[of sample "schema view"] by simp
  have f: "length dv' = length dv \<and> take 8 dv' = take 8 dv"
  proof (cases "\<not> mutable view \<or> length dv < schemaByteSize (schema view)")
    case True
    then show ?thesis using a by (auto simp: bulkSet_def split: if_splits)
  next
    case False
    obtain r1 dv1 where s: "setEntries en (schema view) pvs dv = (r1, dv1)"
      by (cases "setEntries en (schema view) pvs dv")
    from a False s have "dv' = dv1"
      by (cases r1) (auto simp: bulkSet_def)
    with setEntries_frame[OF s hs] show ?thesis by simp
  qed
  then show "length dv' = length dv" and "take 8 dv' = take 8 dv" by simp_all
  from f show "version dv' = version dv"
    by (intro version_cong take4_of_take8) simp
qed

text \<open>
  The amended claim C5 on the views of \<open>{flag: true}\<close> and \<open>{Boolean: true}\<close>:
  \<open>encode\<close> rejecting an undefined value, \<open>bulkSet\<close> rejected by each of its two
  checks, and a \<open>bulkSet\<close> that throws at its second entry with the version unchanged.
\<close>

theorem encode_bulkSet_failures_witness:
  "encode plainEngine (viewFlag True) (VObject [(''flag'', VUndefined)]) [7, 0, 0, 0, 0, 0, 0, 0, 1]
       = (Inl UndefinedNotAllowed, [7, 0, 0, 0, 0, 0, 0, 0, 1])
   \<and> \<not> mutable (viewFlag False)
   \<and> bulkSet plainEngine (viewFlag False) [(''flag'', VBoolean False)] [7, 0, 0, 0, 0, 0, 0, 0, 1]
       = (Inl CannotMutateImmutable, [7, 0, 0, 0, 0, 0, 0, 0, 1])
   \<and> mutable viewBoolean \<and> length [7, 0, 0, 0 :: byte] < schemaByteSize (schema viewBoolean)
   \<and> bulkSet plainEngine viewBoolean [(''Boolean'', VBoolean True)] [7, 0, 0, 0]
       = (Inl (BufferTooSmall 4 9), [7, 0, 0, 0])
   \<and> inferSchema sampleBoolean = Inr (schema viewBoolean)
   \<and> bulkSet plainEngine viewBoolean [(''Boolean'', VBoolean True), (''zz'', VBoolean True)]
         [7, 0, 0, 0, 0, 0, 0, 0, 0, 0]
       = (Inl (InvalidPath ''zz''), [7, 0, 0, 0, 0, 0, 0, 0, 0, 1])
   \<and> version [7, 0, 0, 0, 0, 0, 0, 0, 0, 1] = version [7, 0, 0, 0, 0, 0, 0, 0, 0, 0]"
proof -
  have e: "encode plainEngine (viewFlag True) (VObject [(''flag'', VUndefined)]) [7, 0, 0, 0, 0, 0, 0, 0, 1]
       = (Inl UndefinedNotAllowed, [7, 0, 0, 0, 0, 0, 0, 0, 1])"
    by code_simp
  have m: "\<not> mutable (viewFlag False)" by (simp add: viewFlag_def)
  have l: "mutable viewBoolean \<and> length [7, 0, 0, 0 :: byte] < schemaByteSize (schema viewBoolean)"
    by (simp add: viewBoolean_def schemaBoolean_def)
  have b: "bulkSet plainEngine viewBoolean [(''Boolean'', VBoolean True), (''zz'', VBoolean True)]
         [7, 0, 0, 0, 0, 0, 0, 0, 0, 0]
       = (Inl (InvalidPath ''zz''), [7, 0, 0, 0, 0, 0, 0, 0, 0, 1])"
    by code_simp
  have s: "schemaByteSize (schema viewBoolean) = 9" by (simp add: viewBoolean_def schemaBoolean_def)
  from encode_bulkSet_failures[where en = plainEngine and view = "viewFlag True"
        and data = "VObject [(''flag'', VUndefined)]" and dv = "[7, 0, 0, 0, 0, 0, 0, 0, 1]"
        and e = UndefinedNotAllowed and dv' = "[7, 0, 0, 0, 0, 0, 0, 0, 1]"]
    encode_bulkSet_failures[where en = plainEngine and view = "viewFlag False"
        and pvs = "[(''flag'', VBoolean False)]" and dv = "[7, 0, 0, 0, 0, 0, 0, 0, 1]"]
    encode_bulkSet_failures[where en = plainEngine and view = viewBoolean
        and pvs = "[(''Boolean'', VBoolean True)]" and dv = "[7, 0, 0, 0]"]
    encode_bulkSet_failures[where en = plainEngine and view = viewBoolean
        and e = "InvalidPath ''zz''" and dv' = "[7, 0, 0, 0, 0, 0, 0, 0, 0, 1]"
        and pvs = "[(''Boolean'', VBoolean True), (''zz'', VBoolean True)]"
        and dv = "[7, 0, 0, 0, 0, 0, 0, 0, 0, 0]" and sample = sampleBoolean]
    e m l b s inferSchema_boolean
  show ?thesis by simp
qed




text \<open>
  Claim C7 (the code departs from it). The claim requires the patches of \<open>diff\<close> to be
  the walk of the descriptor tree over the old and the new value: one \<open>replace\<close> patch
  for each mismatched leaf, an array visited index by index. \<open>diff\<close> takes its old value
  from \<open>decode\<close>, which nests every field one level too deep: a leaf \<open>flag\<close> comes back
  as \<open>{flag: {flag: ...}}\<close> and an array \<open>arr\<close> as \<open>{arr: {arr: ...}}\<close>.

  \<^item> On the view of \<open>{flag: true}\<close>, after \<open>encode\<close> of \<open>{flag: false}\<close> into a zeroed
    segment, \<open>diff\<close> against the same \<open>{flag: false}\<close> returns a \<open>replace\<close> patch for
    the unchanged leaf; the walk \<open>specDiff\<close> gives no patch.
  \<^item> On the view of \<open>{arr: [true, false]}\<close> and a segment that holds \<open>[true, false]\<close>, as
    \<open>decodePartial\<close> reads it, \<open>diff\<close> against \<open>{arr: [false, false]}\<close> returns no
    patch: the old value at the \<open>Array\<close> node is an object without \<open>length\<close>, the loop
    bound is \<open>NaN\<close> and no index is visited. The walk, and \<open>compare\<close> run on the two
    values themselves, give the \<open>replace\<close> patch of \<open>arr[0]\<close>.
\<close>

theorem diff_misses_descriptor_walk:
  "createView sampleFlag (Some True) = Inr (viewFlag True)
   \<and> encode plainEngine (viewFlag True) (VObject [(''flag'', VBoolean False)])
         [0, 0, 0, 0, 0, 0, 0, 0, 0]
       = (Inr (), [1, 0, 0, 0, 0, 0, 0, 0, 0])
   \<and> specDiff (descriptorTree (schema (viewFlag True))) []
         (VObject [(''flag'', VBoolean False)]) (VObject [(''flag'', VBoolean False)]) = []
   \<and> diff plainEngine (viewFlag True) [1, 0, 0, 0, 0, 0, 0, 0, 0]
         (VObject [(''flag'', VBoolean False)])
       = Inr [\<lparr>op = Replace, ppath = ''flag'', pvalue = VBoolean False\<rparr>]
   \<and> createView sampleArr (Some True) = Inr viewArr
   \<and> decodePartial plainEngine viewArr ''arr'' [0, 0, 0, 0, 0, 0, 0, 0, 2, 0, 0, 0, 1, 0]
       = Inr (VArray [Some (VBoolean True), Some (VBoolean False)] [])
   \<and> decode viewArr [0, 0, 0, 0, 0, 0, 0, 0, 2, 0, 0, 0, 1, 0]
       = Inr (VObject [(''arr'', VObject [(''arr'',
            VArray [None, None] [(''arr[0]'', VBoolean True), (''arr[1]'', VBoolean False)])])])
   \<and> specDiff (descriptorTree (schema viewArr)) [] sampleArr
         (VObject [(''arr'', VArray [Some (VBoolean False), Some (VBoolean False)] [])])
       = [\<lparr>op = Replace, ppath = ''arr[0]'', pvalue = VBoolean False\<rparr>]
   \<and> compare plainEngine (descriptorTree (schema viewArr)) [] sampleArr
         (VObject [(''arr'', VArray [Some (VBoolean False), Some (VBoolean False)] [])]) []
       = [\<lparr>op = Replace, ppath = ''arr[0]'', pvalue = VBoolean False\<rparr>]
   \<and> diff plainEngine viewArr [0, 0, 0, 0, 0, 0, 0, 0, 2, 0, 0, 0, 1, 0]
         (VObject [(''arr'', VArray [Some (VBoolean False), Some (VBoolean False)] [])])
       = Inr []"
proof (intro conjI)
  show "createView sampleFlag (Some True) = Inr (viewFlag True)"
    by (simp add: createView_def inferSchema_def inferLeaf_def Let_def sampleFlag_def
        schemaFlag_def viewFlag_def)
  show "encode plainEngine (viewFlag True) (VObject [(''flag'', VBoolean False)])
         [0, 0, 0, 0, 0, 0, 0, 0, 0]
       = (Inr (), [1, 0, 0, 0, 0, 0, 0, 0, 0])"
    by code_simp
  show "specDiff (descriptorTree (schema (viewFlag True))) []
         (VObject [(''flag'', VBoolean False)]) (VObject [(''flag'', VBoolean False)]) = []"
    by code_simp
  show "diff plainEngine (viewFlag True) [1, 0, 0, 0, 0, 0, 0, 0, 0]
         (VObject [(''flag'', VBoolean False)])
       = Inr [\<lparr>op = Replace, ppath = ''flag'', pvalue = VBoolean False\<rparr>]"
    by code_simp
  have one: "showNat (Suc 0) = ''1''"
    by code_simp
  show "createView sampleArr (Some True) = Inr viewArr"
    by (simp add: createView_def inferSchema_def inferLeaf_def Let_def sampleArr_def
        schemaArr_def viewArr_def setByteSize_def one)
  show "decodePartial plainEngine viewArr ''arr'' [0, 0, 0, 0, 0, 0, 0, 0, 2, 0, 0, 0, 1, 0]
       = Inr (VArray [Some (VBoolean True), Some (VBoolean False)] [])"
    by code_simp
  show "decode viewArr [0, 0, 0, 0, 0, 0, 0, 0, 2, 0, 0, 0, 1, 0]
       = Inr (VObject [(''arr'', VObject [(''arr'',
            VArray [None, None] [(''arr[0]'', VBoolean True), (''arr[1]'', VBoolean False)])])])"
    by code_simp
  show "specDiff (descriptorTree (schema viewArr)) [] sampleArr
         (VObject [(''arr'', VArray [Some (VBoolean False), Some (VBoolean False)] [])])
       = [\<lparr>op = Replace, ppath = ''arr[0]'', pvalue = VBoolean False\<rparr>]"
    by code_simp
  show "compare plainEngine (descriptorTree (schema viewArr)) [] sampleArr
         (VObject [(''arr'', VArray [Some (VBoolean False), Some (VBoolean False)] [])]) []
       = [\<lparr>op = Replace, ppath = ''arr[0]'', pvalue = VBoolean False\<rparr>]"
    by code_simp
  show "diff plainEngine viewArr [0, 0, 0, 0, 0, 0, 0, 0, 2, 0, 0, 0, 1, 0]
         (VObject [(''arr'', VArray [Some (VBoolean False), Some (VBoolean False)] [])])
       = Inr []"
    by code_simp
qed

text \<open>
  Claim C8. \<open>destroy\<close> cancels the scheduled task of the handle, removes the handle
  from the set registered for its segment, clears the bound variable, the callback and the
  task handle, and is idempotent: a second call changes nothing.
\<close>

theorem destroy_idempotent:
  "destroy this (destroy this (vs, host)) = destroy this (vs, host)
   \<and> boundVariable (fst (destroy this (vs, host))) = None
   \<and> onUpdate (fst (destroy this (vs, host))) = None
   \<and> pollHandle (fst (destroy this (vs, host))) = None
   \<and> syncSab (fst (destroy this (vs, host))) = syncSab vs
   \<and> scheduled (snd (destroy this (vs, host))) = scheduled host - set_option (pollHandle vs)
   \<and> viewSyncRegistry (snd (destroy this (vs, host))) =
       (case viewSyncRegistry host (syncSab vs) of
          None \<Rightarrow> viewSyncRegistry host
        | Some handles \<Rightarrow> (viewSyncRegistry host)(syncSab vs := Some (handles - {this})))"
  by (cases "pollHandle vs"; cases "viewSyncRegistry host (syncSab vs)")
    (simp_all add: destroy_def cancel_def Let_def)

text \<open>
  Claim C8 on a handle with a scheduled task, registered with another handle.
\<close>

theorem destroy_idempotent_witness:
  "destroy 5 (destroy 5 (\<lparr>syncSab = 1, boundVariable = Some VNull, onUpdate = Some 7, pollHandle = Some 3\<rparr>,
       \<lparr>viewSyncRegistry = (\<lambda>s. if s = 1 then Some {5, 6} else None), scheduled = {3, 4}\<rparr>))
   = destroy 5 (\<lparr>syncSab = 1, boundVariable = Some VNull, onUpdate = Some 7, pollHandle = Some 3\<rparr>,
       \<lparr>viewSyncRegistry = (\<lambda>s. if s = 1 then Some {5, 6} else None), scheduled = {3, 4}\<rparr>)
   \<and> scheduled (snd (destroy 5 (\<lparr>syncSab = 1, boundVariable = Some VNull, onUpdate = Some 7, pollHandle = Some 3\<rparr>,
       \<lparr>viewSyncRegistry = (\<lambda>s. if s = 1 then Some {5, 6} else None), scheduled = {3, 4}\<rparr>))) = {4}
   \<and> viewSyncRegistry (snd (destroy 5 (\<lparr>syncSab = 1, boundVariable = Some VNull, onUpdate = Some 7, pollHandle = Some 3\<rparr>,
       \<lparr>viewSyncRegistry = (\<lambda>s. if s = 1 then Some {5, 6} else None), scheduled = {3, 4}\<rparr>))) 1 = Some {6}"
  using destroy_idempotent[of 5 "\<lparr>syncSab = 1, boundVariable = Some VNull, onUpdate = Some 7, pollHandle = Some 3\<rparr>"
      "\<lparr>viewSyncRegistry = (\<lambda>s. if s = 1 then Some {5, 6} else None), scheduled = {3, 4}\<rparr>"]
  by auto

text \<open>
  Claim C9. Inferring a schema from \<open>{num: 42, str: "hello"}\<close> succeeds with
  \<open>byteSize = 25\<close>: the cursor starts at 8, after the header; the number field takes
  offset 8 and 8 bytes; the string field takes offset 16 and \<open>4 + 5\<close> bytes; the fields
  are laid out in enumeration order at ascending offsets.
\<close>

theorem inferSchema_num_str_layout:
  "inferSchema sampleNumStr =
     Inr \<lparr>descriptorTree = Descriptor Object 8 17 None
            [(''num'', Descriptor Primitive 8 8 (Some (Prim Number)) [] None),
             (''str'', Descriptor Primitive 16 9 (Some (Prim String)) [] None)] None,
          schemaByteSize = 25,
          flatIndex = [(''num'', 8, ''Number''), (''str'', 16, ''String''), ('''', 8, ''Object'')],
          encodingTemplate =
            [\<lparr>offset = 8, path = ''num'', tsize = 8,
              setter = NumberAccessor SharedCurrentOffset, getter = NumberAccessor SharedCurrentOffset\<rparr>,
             \<lparr>offset = 16, path = ''str'', tsize = 4 + 5,
              setter = StringAccessor SharedCurrentOffset, getter = StringAccessor SharedCurrentOffset\<rparr>,
             \<lparr>offset = 8, path = '''', tsize = 17, setter = ObjectAccessor, getter = ObjectAccessor\<rparr>],
          typedArrayViews = [],
          cell = 25\<rparr>"
  by (simp add: sampleNumStr_def inferSchema_def inferLeaf_def Let_def)




end
